theory Spec2Isabelle
  imports Main
begin

section \<open>Strings and characters\<close>

text \<open>
  A Go string is a sequence of bytes; it is modelled as a \<open>string\<close> (a list of
  \<open>char\<close>, one per byte). Every pattern of the source is made of ASCII characters
  only, so matching byte by byte finds the same matches as matching rune by rune.
\<close>

definition digits :: string where
  "digits = ''0123456789''"

definition is_digit :: "char \<Rightarrow> bool" where
  "is_digit c = (c \<in> set digits)"

definition digit_val :: "char \<Rightarrow> nat" where
  "digit_val c = of_char c - 48"

section \<open>The fragment of the regexp package that the source uses\<close>

text \<open>
  The patterns compiled by the source are
  \<^item> \<^verbatim>\<open>(\d*e?\d*)(m?)\<close> and \<^verbatim>\<open>(\d*e?\d*)(Ei?|Pi?|Ti?|Gi?|Mi?|Ki?|$)\<close> in util/helper.go,
  \<^item> \<^verbatim>\<open>^([0-9.]+)m$\<close>, \<^verbatim>\<open>^([0-9.]+)$\<close> and \<^verbatim>\<open>^[0-9]+Mi$\<close> (also Gi, Ti, Pi, Ki)
    in the template validator.

  They use literals, one-character classes under \<open>*\<close> and \<open>+\<close>, the greedy \<open>?\<close>,
  concatenation, alternation, capturing groups and the anchors \<open>^\<close> and \<open>$\<close> (without
  the \<open>m\<close> flag: beginning and end of the text).
\<close>

datatype regex =
    Lit char
  | Star string
  | Plus string
  | Bot
  | Eot
  | Seq regex regex
  | Alt regex regex
  | Opt regex
  | Group nat regex

type_synonym caps = "(nat \<times> string) list"
type_synonym mstate = "nat \<times> string \<times> caps"

text \<open>
  \<open>ms re p r g\<close> lists every way in which \<open>re\<close> matches a prefix of the remaining
  text \<open>r\<close>, which starts at offset \<open>p\<close> of the whole text, in the order of preference
  of Go's leftmost-first matching: a greedy operator prefers the longer match, an
  alternation its left branch. A result is the offset after the match, the text
  that remains, and the groups captured so far.
\<close>

fun ms :: "regex \<Rightarrow> nat \<Rightarrow> string \<Rightarrow> caps \<Rightarrow> mstate list" where
  "ms (Lit a) p [] g = []"
| "ms (Lit a) p (c # r) g = (if c = a then [(Suc p, r, g)] else [])"
| "ms (Star cs) p r g =
     map (\<lambda>k. (p + k, drop k r, g)) (rev [0..<Suc (length (takeWhile (\<lambda>c. c \<in> set cs) r))])"
| "ms (Plus cs) p r g =
     map (\<lambda>k. (p + k, drop k r, g)) (rev [1..<Suc (length (takeWhile (\<lambda>c. c \<in> set cs) r))])"
| "ms Bot p r g = (if p = 0 then [(p, r, g)] else [])"
| "ms Eot p r g = (if r = [] then [(p, r, g)] else [])"
| "ms (Seq a b) p r g = concat (map (\<lambda>(p', r', g'). ms b p' r' g') (ms a p r g))"
| "ms (Alt a b) p r g = ms a p r g @ ms b p r g"
| "ms (Opt a) p r g = ms a p r g @ [(p, r, g)]"
| "ms (Group k a) p r g =
     map (\<lambda>(p', r', g'). (p', r', (k, take (p' - p) r) # g')) (ms a p r g)"

fun num_groups :: "regex \<Rightarrow> nat" where
  "num_groups (Seq a b) = num_groups a + num_groups b"
| "num_groups (Alt a b) = num_groups a + num_groups b"
| "num_groups (Opt a) = num_groups a"
| "num_groups (Group k a) = Suc (num_groups a)"
| "num_groups _ = 0"

text \<open>
  The leftmost match: the first start offset at which the pattern matches, and there
  the preferred match.
\<close>

fun search :: "regex \<Rightarrow> nat \<Rightarrow> string \<Rightarrow> (nat \<times> string \<times> mstate) option" where
  "search re p r =
     (case ms re p r [] of
        st # _ \<Rightarrow> Some (p, r, st)
      | [] \<Rightarrow> (case r of [] \<Rightarrow> None | _ # r' \<Rightarrow> search re (Suc p) r'))"

definition group_text :: "caps \<Rightarrow> nat \<Rightarrow> string" where
  "group_text g k = (case map_of g k of Some s \<Rightarrow> s | None \<Rightarrow> [])"

definition submatch :: "regex \<Rightarrow> nat \<times> string \<times> mstate \<Rightarrow> string list" where
  "submatch re m =
     (case m of (p, r, p', r', g) \<Rightarrow>
        take (p' - p) r # map (group_text g) [1..<Suc (num_groups re)])"

text \<open>
  \<open>re.FindAllStringSubmatch(s, -1)\<close> returns the successive matches of \<open>re\<close> in
  \<open>s\<close>, each as the list of the whole match and of the text of every group. The
  source reads \<open>matches[0]\<close> only. The model returns the list with its first match,
  which is the leftmost match, or the empty list when the pattern matches nowhere.
\<close>

definition FindAllStringSubmatch :: "regex \<Rightarrow> string \<Rightarrow> string list list" where
  "FindAllStringSubmatch re s =
     (case search re 0 s of None \<Rightarrow> [] | Some m \<Rightarrow> [submatch re m])"

definition MatchString :: "regex \<Rightarrow> string \<Rightarrow> bool" where
  "MatchString re s = (search re 0 s \<noteq> None)"

section \<open>64-bit floating-point numbers\<close>

text \<open>
  A \<open>float64\<close> is a finite number \<open>\<plusminus> m * 2 ^ e\<close> (\<open>Fin neg m e\<close>), an infinity or
  NaN. The finite values are kept in the form of IEEE 754 binary64: either
  \<open>e = -1074\<close> and \<open>m < 2 ^ 52\<close> (zero and the subnormal numbers), or
  \<open>2 ^ 52 \<le> m < 2 ^ 53\<close> and \<open>-1074 \<le> e \<le> 971\<close>.
\<close>

datatype float64 = Fin bool nat int | Inf bool | NaN

definition f64_zero :: float64 where
  "f64_zero = Fin False 0 (- 1074)"

fun bitlen :: "nat \<Rightarrow> nat" where
  "bitlen n = (if n = 0 then 0 else Suc (bitlen (n div 2)))"

declare bitlen.simps [simp del]

text \<open>
  \<open>round_to_f64 neg p q\<close> is the binary64 number nearest to \<open>\<plusminus> p / q\<close> (for \<open>0 < q\<close>),
  ties to the even mantissa, and the infinity when the rounded value is beyond the
  largest finite number: first the exponent of the binade of \<open>p / q\<close>, then the
  quotient by the unit in the last place, rounded to an integer.
\<close>

definition floor_log2 :: "nat \<Rightarrow> nat \<Rightarrow> int" where
  "floor_log2 p q =
     (let k0 = int (bitlen p) - int (bitlen q)
      in if q * 2 ^ nat k0 \<le> p * 2 ^ nat (- k0) then k0 else k0 - 1)"

definition round_half_even :: "nat \<Rightarrow> nat \<Rightarrow> nat" where
  "round_half_even num den =
     (let m0 = num div den; r = num mod den
      in if 2 * r < den then m0
         else if den < 2 * r then m0 + 1
         else if even m0 then m0 else m0 + 1)"

definition round_to_f64 :: "bool \<Rightarrow> nat \<Rightarrow> nat \<Rightarrow> float64" where
  "round_to_f64 neg p q =
     (if p = 0 then Fin neg 0 (- 1074)
      else
        let e = max (- 1074) (floor_log2 p q - 52);
            m = round_half_even (p * 2 ^ nat (- e)) (q * 2 ^ nat e);
            m' = (if m = 2 ^ 53 then 2 ^ 52 else m);
            e' = (if m = 2 ^ 53 then e + 1 else e)
        in if 971 < e' then Inf neg else Fin neg m' e')"

definition f64_of_nat :: "nat \<Rightarrow> float64" where
  "f64_of_nat n = round_to_f64 False n 1"

fun f64_mul :: "float64 \<Rightarrow> float64 \<Rightarrow> float64" where
  "f64_mul NaN y = NaN"
| "f64_mul x NaN = NaN"
| "f64_mul (Inf s) (Inf t) = Inf (s \<noteq> t)"
| "f64_mul (Inf s) (Fin t n f) = (if n = 0 then NaN else Inf (s \<noteq> t))"
| "f64_mul (Fin s m e) (Inf t) = (if m = 0 then NaN else Inf (s \<noteq> t))"
| "f64_mul (Fin s m e) (Fin t n f) =
     round_to_f64 (s \<noteq> t) (m * n * 2 ^ nat (e + f)) (2 ^ nat (- (e + f)))"

fun f64_div :: "float64 \<Rightarrow> float64 \<Rightarrow> float64" where
  "f64_div NaN y = NaN"
| "f64_div x NaN = NaN"
| "f64_div (Inf s) (Inf t) = NaN"
| "f64_div (Inf s) (Fin t n f) = Inf (s \<noteq> t)"
| "f64_div (Fin s m e) (Inf t) = Fin (s \<noteq> t) 0 (- 1074)"
| "f64_div (Fin s m e) (Fin t n f) =
     (if n = 0 then (if m = 0 then NaN else Inf (s \<noteq> t))
      else round_to_f64 (s \<noteq> t) (m * 2 ^ nat (e - f)) (n * 2 ^ nat (f - e)))"

definition sval :: "bool \<Rightarrow> nat \<Rightarrow> int \<Rightarrow> int" where
  "sval neg m e = (if neg then - 1 else 1) * int (m * 2 ^ nat (e + 1074))"

text \<open>The comparison \<open>x < y\<close> of Go: false whenever an operand is NaN.\<close>

fun f64_less :: "float64 \<Rightarrow> float64 \<Rightarrow> bool" where
  "f64_less NaN y = False"
| "f64_less x NaN = False"
| "f64_less (Inf s) (Inf t) = (s \<and> \<not> t)"
| "f64_less (Inf s) (Fin t n f) = s"
| "f64_less (Fin s m e) (Inf t) = (\<not> t)"
| "f64_less (Fin s m e) (Fin t n f) = (sval s m e < sval t n f)"

section \<open>Errors and results\<close>

text \<open>
  A Go \<open>error\<close> is a value: a \<open>strconv.NumError\<close> (the function, the input and
  \<open>ErrSyntax\<close> or \<open>ErrRange\<close>), an error made from a message by \<open>errors.New\<close> or
  \<open>fmt.Errorf\<close>, or an error returned by a collaborator (encoding/json,
  gojsonschema). A function returning \<open>(T, error)\<close> returns a pair whose second
  component is \<open>None\<close> for \<open>nil\<close>. A run-time panic (an index out of range, a failed
  type assertion) is the result \<open>Panics\<close>.
\<close>

datatype num_err = ErrSyntax | ErrRange

datatype error =
    NumError string string num_err
  | ErrorString string
  | External string

datatype 'a exec = Panics | Returns 'a

section \<open>The functions of strconv, strings and math that ParseFloat calls\<close>

definition to_lower :: "char \<Rightarrow> char" where
  "to_lower c =
     (if c \<in> set ''ABCDEFGHIJKLMNOPQRSTUVWXYZ'' then char_of (of_char c + (32 :: nat)) else c)"

fun commonPrefixLenIgnoreCase :: "string \<Rightarrow> string \<Rightarrow> nat" where
  "commonPrefixLenIgnoreCase (c # s) (d # prefix) =
     (if to_lower c = d then Suc (commonPrefixLenIgnoreCase s prefix) else 0)"
| "commonPrefixLenIgnoreCase s prefix = 0"

definition inf_prefix :: "bool \<Rightarrow> nat \<Rightarrow> string \<Rightarrow> (float64 \<times> nat) option" where
  "inf_prefix neg nsign s =
     (let n0 = commonPrefixLenIgnoreCase s ''infinity'';
          n = (if 3 < n0 \<and> n0 < 8 then 3 else n0)
      in if n = 3 \<or> n = 8 then Some (Inf neg, nsign + n) else None)"

text \<open>\<open>special\<close>: the prefixes \<open>inf\<close>, \<open>infinity\<close> (with an optional sign) and \<open>nan\<close>.\<close>

definition special :: "string \<Rightarrow> (float64 \<times> nat) option" where
  "special s =
     (case s of
        [] \<Rightarrow> None
      | c # t \<Rightarrow>
          if c = CHR ''+'' \<or> c = CHR ''-'' then inf_prefix (c = CHR ''-'') 1 t
          else if c = CHR ''i'' \<or> c = CHR ''I'' then inf_prefix False 0 s
          else if c = CHR ''n'' \<or> c = CHR ''N'' then
            (if commonPrefixLenIgnoreCase s ''nan'' = 3 then Some (NaN, 3) else None)
          else None)"

text \<open>
  The mantissa loop of \<open>readFloat\<close>, with its variables \<open>sawdot\<close>, \<open>sawdigits\<close>, \<open>nd\<close>,
  \<open>dp\<close> and \<open>mantissa\<close>; it returns them with the text left at the first character
  that is neither a digit nor the first dot. Go keeps 19 digits of the mantissa and
  reads the text again, with every digit, when some were dropped; the model keeps
  every digit at once.
\<close>

fun mant_loop ::
  "string \<Rightarrow> bool \<times> bool \<times> nat \<times> int \<times> nat \<Rightarrow> (bool \<times> bool \<times> nat \<times> int \<times> nat) \<times> string" where
  "mant_loop [] st = (st, [])"
| "mant_loop (c # cs) (sawdot, sawdigits, nd, dp, mantissa) =
     (if c = CHR ''.'' then
        (if sawdot then ((sawdot, sawdigits, nd, dp, mantissa), c # cs)
         else mant_loop cs (True, sawdigits, nd, int nd, mantissa))
      else if is_digit c then
        (if c = CHR ''0'' \<and> nd = 0 then mant_loop cs (sawdot, True, nd, dp - 1, mantissa)
         else mant_loop cs (sawdot, True, nd + 1, dp, mantissa * 10 + digit_val c))
      else ((sawdot, sawdigits, nd, dp, mantissa), c # cs))"

text \<open>The exponent digits: the loop stops adding digits once \<open>e\<close> has reached 10000.\<close>

definition exp_loop :: "string \<Rightarrow> nat" where
  "exp_loop ds = foldl (\<lambda>e c. if e < 10000 then e * 10 + digit_val c else e) 0 ds"

definition exp_part :: "string \<Rightarrow> (int \<times> string) option" where
  "exp_part s =
     (case s of
        [] \<Rightarrow> None
      | c # t \<Rightarrow>
          let esign = (if c = CHR ''-'' then - 1 else 1);
              u = (if c = CHR ''+'' \<or> c = CHR ''-'' then t else s)
          in (case u of
                [] \<Rightarrow> None
              | d # _ \<Rightarrow>
                  if \<not> is_digit d then None
                  else Some (esign * int (exp_loop (takeWhile is_digit u)), dropWhile is_digit u)))"

text \<open>
  \<open>readFloat\<close> for the decimal syntax: the sign, the mantissa with its decimal
  exponent, and the text that was not read; \<open>None\<close> when the text is not a number.
  The value read is \<open>mantissa * 10 ^ exp\<close>.
\<close>

definition readFloat :: "string \<Rightarrow> (bool \<times> nat \<times> int \<times> string) option" where
  "readFloat s =
     (case s of
        [] \<Rightarrow> None
      | c # t \<Rightarrow>
          let neg = (c = CHR ''-'');
              s1 = (if c = CHR ''+'' \<or> c = CHR ''-'' then t else s)
          in (case mant_loop s1 (False, False, 0, 0, 0) of
                ((sawdot, sawdigits, nd, dp0, mantissa), s2) \<Rightarrow>
                  if \<not> sawdigits then None
                  else
                    let dp = (if sawdot then dp0 else int nd)
                    in (case s2 of
                          [] \<Rightarrow> Some (neg, mantissa, dp - int nd, s2)
                        | x # s3 \<Rightarrow>
                            if x = CHR ''e'' \<or> x = CHR ''E'' then
                              (case exp_part s3 of
                                 None \<Rightarrow> None
                               | Some (e, s4) \<Rightarrow> Some (neg, mantissa, dp + e - int nd, s4))
                            else Some (neg, mantissa, dp - int nd, s2))))"

definition decimal_to_f64 :: "bool \<Rightarrow> nat \<Rightarrow> int \<Rightarrow> float64" where
  "decimal_to_f64 neg mantissa e =
     (if 0 \<le> e then round_to_f64 neg (mantissa * 10 ^ nat e) 1
      else round_to_f64 neg mantissa (10 ^ nat (- e)))"

text \<open>
  \<open>strconv.ParseFloat(s, 64)\<close>: the whole text must be a number; the result is the
  nearest binary64 number, and \<open>ErrRange\<close> with an infinity when that is beyond
  the largest finite number. Go also reads hexadecimal mantissas (\<open>0x1p-2\<close>) and
  underscores between digits; the model reads the decimal syntax and the special
  values only and rejects these. No text that \<open>convertResource\<close> passes to
  \<open>ParseFloat\<close> contains the letter \<open>x\<close> or an underscore, since it is the text of the
  group \<^verbatim>\<open>(\d*e?\d*)\<close>.
\<close>

definition strconv_ParseFloat :: "string \<Rightarrow> float64 \<times> error option" where
  "strconv_ParseFloat s =
     (case special s of
        Some (v, n) \<Rightarrow>
          if n = length s then (v, None)
          else (f64_zero, Some (NumError ''ParseFloat'' s ErrSyntax))
      | None \<Rightarrow>
          (case readFloat s of
             None \<Rightarrow> (f64_zero, Some (NumError ''ParseFloat'' s ErrSyntax))
           | Some (neg, mantissa, e, rest) \<Rightarrow>
               if rest \<noteq> [] then (f64_zero, Some (NumError ''ParseFloat'' s ErrSyntax))
               else
                 (case decimal_to_f64 neg mantissa e of
                    Inf sg \<Rightarrow> (Inf sg, Some (NumError ''ParseFloat'' s ErrRange))
                  | f \<Rightarrow> (f, None))))"

text \<open>
  \<open>strconv.ParseInt(s, 10, 64)\<close>: an optional sign and decimal digits; \<open>ErrRange\<close>
  with the nearest bound when the number is not an \<open>int64\<close>.
\<close>

definition strconv_ParseInt :: "string \<Rightarrow> int \<times> error option" where
  "strconv_ParseInt s =
     (case s of
        [] \<Rightarrow> (0, Some (NumError ''ParseInt'' s ErrSyntax))
      | c # t \<Rightarrow>
          let neg = (c = CHR ''-'');
              u = (if c = CHR ''+'' \<or> c = CHR ''-'' then t else s)
          in if u = [] \<or> \<not> list_all is_digit u then (0, Some (NumError ''ParseInt'' s ErrSyntax))
             else
               let un = foldl (\<lambda>n d. n * 10 + digit_val d) 0 u
               in if \<not> neg \<and> 2 ^ 63 \<le> un then (2 ^ 63 - 1, Some (NumError ''ParseInt'' s ErrRange))
                  else if neg \<and> 2 ^ 63 < un then (- (2 ^ 63), Some (NumError ''ParseInt'' s ErrRange))
                  else (if neg then - int un else int un, None))"

text \<open>
  \<open>math.Pow10(n)\<close>: the product of two entries of the tables \<open>pow10tab\<close> (the
  constants \<open>1e0\<close> to \<open>1e31\<close>) and \<open>pow10postab32\<close> (\<open>1e0\<close>, \<open>1e32\<close>, ... \<open>1e288\<close>) for
  \<open>0 \<le> n \<le> 308\<close>, the quotient of an entry of \<open>pow10negtab32\<close> (\<open>1e-0\<close>, \<open>1e-32\<close>, ...
  \<open>1e-320\<close>) by one of \<open>pow10tab\<close> for \<open>-323 \<le> n \<le> 0\<close>, and beyond these the infinity
  or zero.
\<close>

definition Pow10 :: "int \<Rightarrow> float64" where
  "Pow10 n =
     (if 0 \<le> n \<and> n \<le> 308 then
        f64_mul (f64_of_nat (10 ^ (32 * (nat n div 32)))) (f64_of_nat (10 ^ (nat n mod 32)))
      else if - 323 \<le> n \<and> n \<le> 0 then
        f64_div (round_to_f64 False 1 (10 ^ (32 * (nat (- n) div 32))))
                (f64_of_nat (10 ^ (nat (- n) mod 32)))
      else if 0 < n then Inf False
      else f64_zero)"

text \<open>\<open>strings.IndexAny(s, chars)\<close>: \<open>None\<close> stands for the result -1.\<close>

fun IndexAny :: "string \<Rightarrow> string \<Rightarrow> nat option" where
  "IndexAny [] chars = None"
| "IndexAny (c # s) chars =
     (if c \<in> set chars then Some 0 else map_option Suc (IndexAny s chars))"

section \<open>util/helper.go: the quantity parser\<close>

text \<open>\<open>ParseFloat\<close>, lines 201 to 232; \<open>int\<close> has 64 bits.\<close>

definition ParseFloat :: "string \<Rightarrow> float64 \<times> error option" where
  "ParseFloat str0 =
     (case strconv_ParseFloat str0 of
        (val, None) \<Rightarrow> (val, None)
      | (_, Some _) \<Rightarrow>
          let str = filter (\<lambda>c. c \<noteq> CHR '','') str0
          in (case IndexAny str ''eE'' of
                None \<Rightarrow> strconv_ParseFloat str
              | Some pos \<Rightarrow>
                  (case strconv_ParseFloat (take pos str) of
                     (_, Some err) \<Rightarrow> (f64_zero, Some err)
                   | (baseVal, None) \<Rightarrow>
                       (case strconv_ParseInt (drop (pos + 1) str) of
                          (_, Some err) \<Rightarrow> (f64_zero, Some err)
                        | (expVal, None) \<Rightarrow> (f64_mul baseVal (Pow10 expVal), None)))))"

record resourceParser =
  name :: string
  pattern :: string
  regex :: regex
  conversions :: "(string \<times> float64) list"

definition lit_re :: regex where
  "lit_re = Group 1 (Seq (Star digits) (Seq (Opt (Lit (CHR ''e''))) (Star digits)))"

definition lit_pattern :: string where
  "lit_pattern = ''('' @ [CHR 0x5C] @ ''d*e?'' @ [CHR 0x5C] @ ''d*)''"

definition unit_re :: "char \<Rightarrow> regex" where
  "unit_re c = Seq (Lit c) (Opt (Lit (CHR ''i'')))"

definition units_re :: regex where
  "units_re =
     Group 2
       (Alt (unit_re (CHR ''E'')) (Alt (unit_re (CHR ''P'')) (Alt (unit_re (CHR ''T''))
       (Alt (unit_re (CHR ''G'')) (Alt (unit_re (CHR ''M'')) (Alt (unit_re (CHR ''K''))
        Eot))))))"

text \<open>
  The parsers that \<open>MemoryToNumber\<close> and \<open>CpuToNumber\<close> build at their first call and
  keep in the variables \<open>memoryParser\<close> and \<open>cpuParser\<close>.
\<close>

definition memoryParser :: resourceParser where
  "memoryParser =
     \<lparr> name = ''memory'',
       pattern = lit_pattern @ ''(Ei?|Pi?|Ti?|Gi?|Mi?|Ki?|$)'',
       regex = Seq lit_re units_re,
       conversions =
         [(''E'', f64_of_nat 1000000000000000000),
          (''P'', f64_of_nat 1000000000000000),
          (''T'', f64_of_nat 1000000000000),
          (''G'', f64_of_nat 1000000000),
          (''M'', f64_of_nat 1000000),
          (''K'', f64_of_nat 1000),
          (''Ei'', f64_of_nat 1152921504606846976),
          (''Pi'', f64_of_nat 1125899906842624),
          (''Ti'', f64_of_nat 1099511627776),
          (''Gi'', f64_of_nat 1073741824),
          (''Mi'', f64_of_nat 1048576),
          (''Ki'', f64_of_nat 1024)] \<rparr>"

definition cpuParser :: resourceParser where
  "cpuParser =
     \<lparr> name = ''cpu'',
       pattern = lit_pattern @ ''(m?)'',
       regex = Seq lit_re (Group 2 (Opt (Lit (CHR ''m'')))),
       conversions = [(''m'', round_to_f64 False 1 1000)] \<rparr>"

definition pattern_error :: "resourceParser \<Rightarrow> string \<Rightarrow> error" where
  "pattern_error rp resource =
     ErrorString (''expected pattern for '' @ name rp @ '' should match '' @ pattern rp
                  @ '', found '' @ resource)"

text \<open>
  \<open>convertResource\<close>, lines 177 to 199. \<open>FindAllStringSubmatch\<close> returns \<open>nil\<close> when
  the pattern matches nowhere, and \<open>matches[0]\<close> then panics. The lines that
  \<open>fmt.Printf\<close> and \<open>fmt.Println\<close> write to the standard output are not modelled.
\<close>

definition convertResource :: "resourceParser \<Rightarrow> string \<Rightarrow> (float64 \<times> error option) exec" where
  "convertResource rp resource =
     (case FindAllStringSubmatch (regex rp) resource of
        [] \<Rightarrow> Panics
      | m0 # _ \<Rightarrow>
          if length m0 < 2 then Returns (f64_zero, Some (pattern_error rp resource))
          else
            (case ParseFloat (m0 ! 1) of
               (_, Some err) \<Rightarrow> Returns (f64_zero, Some err)
             | (num, None) \<Rightarrow>
                 if length m0 = 3 \<and> m0 ! 2 \<noteq> [] then
                   (case map_of (conversions rp) (m0 ! 2) of
                      Some suffix \<Rightarrow> Returns (f64_mul num suffix, None)
                    | None \<Rightarrow> Returns (f64_zero, Some (pattern_error rp resource)))
                 else Returns (num, None)))"

definition MemoryToNumber :: "string \<Rightarrow> (float64 \<times> error option) exec" where
  "MemoryToNumber memory = convertResource memoryParser memory"

definition CpuToNumber :: "string \<Rightarrow> (float64 \<times> error option) exec" where
  "CpuToNumber cpu = convertResource cpuParser cpu"

section \<open>Documents\<close>

text \<open>
  A value of type \<open>interface{}\<close> as \<open>encoding/json\<close> decodes it: \<open>nil\<close>, a \<open>bool\<close>, a
  number, a \<open>string\<close>, a slice or a \<open>map[string]interface{}\<close>. A map is a list of
  entries read with \<open>map_of\<close>.
\<close>

datatype json =
    JNull
  | JBool bool
  | JNumber int
  | JString string
  | JArray "json list"
  | JObject "(string \<times> json) list"

type_synonym jmap = "(string \<times> json) list"

text \<open>\<open>v, ok := m[k]\<close>: the value and whether the key is present; \<open>m[k]\<close> is its first half.\<close>

definition index :: "jmap \<Rightarrow> string \<Rightarrow> json \<times> bool" where
  "index m k = (case map_of m k of None \<Rightarrow> (JNull, False) | Some v \<Rightarrow> (v, True))"

text \<open>
  The type assertion \<open>x.(map[string]interface{})\<close> with one result: \<open>None\<close> stands for
  the panic of a value that is not a map.
\<close>

definition assert_map :: "json \<Rightarrow> jmap option" where
  "assert_map x = (case x of JObject m \<Rightarrow> Some m | _ \<Rightarrow> None)"

text \<open>\<open>x.(map[string]interface{})[k]\<close>, with the value and the \<open>ok\<close> of the index.\<close>

definition assert_index :: "json \<Rightarrow> string \<Rightarrow> (json \<times> bool) option" where
  "assert_index x k = map_option (\<lambda>m. index m k) (assert_map x)"

text \<open>\<open>dat["resources"].(map[string]interface{})[a].(map[string]interface{})[b]\<close>\<close>

definition resources_field :: "jmap \<Rightarrow> string \<Rightarrow> string \<Rightarrow> (json \<times> bool) option" where
  "resources_field dat a b =
     Option.bind (assert_index (fst (index dat ''resources'')) a) (\<lambda>(x, _). assert_index x b)"

text \<open>
  \<open>dat["envoyproxy"].(map[string]interface{})["resources"].(map[string]interface{})[a]
  .(map[string]interface{})[b]\<close>
\<close>

definition envoyproxy_field :: "jmap \<Rightarrow> string \<Rightarrow> string \<Rightarrow> (json \<times> bool) option" where
  "envoyproxy_field dat a b =
     Option.bind (assert_index (fst (index dat ''envoyproxy'')) ''resources'')
       (\<lambda>(x, _). Option.bind (assert_index x a) (\<lambda>(y, _). assert_index y b))"

type_synonym verdict = "(bool \<times> error option) exec"

text \<open>
  A statement \<open>v, ok := e; if !ok { return false, errors.New(msg) }\<close> followed by the
  rest of the function body \<open>k\<close>; the evaluation of \<open>e\<close> may panic.
\<close>

definition require :: "(json \<times> bool) option \<Rightarrow> string \<Rightarrow> (json \<Rightarrow> verdict) \<Rightarrow> verdict" where
  "require e msg k =
     (case e of
        None \<Rightarrow> Panics
      | Some (v, ok) \<Rightarrow> if \<not> ok then Returns (False, Some (ErrorString msg)) else k v)"

text \<open>
  A statement \<open>x, _ := f(v.(string))\<close> followed by the rest \<open>k\<close>: the type assertion
  panics on a value that is not a string, and the error of \<open>f\<close> is dropped.
\<close>

definition to_number ::
  "(string \<Rightarrow> (float64 \<times> error option) exec) \<Rightarrow> json \<Rightarrow> (float64 \<Rightarrow> verdict) \<Rightarrow> verdict" where
  "to_number f v k =
     (case v of
        JString s \<Rightarrow> (case f s of Panics \<Rightarrow> Panics | Returns (x, _) \<Rightarrow> k x)
      | _ \<Rightarrow> Panics)"

text \<open>
  The conversions and the comparison that end both \<open>Autoscale\<close> (lines 287 to 299) and
  the autoscaling branch of \<open>DeploymentTemplateValidate\<close> (lines 143 to 157).
\<close>

definition compare_limits ::
  "json \<Rightarrow> json \<Rightarrow> json \<Rightarrow> json \<Rightarrow> json \<Rightarrow> json \<Rightarrow> json \<Rightarrow> json \<Rightarrow> verdict \<Rightarrow> verdict" where
  "compare_limits checkCPUlimit checkMemorylimit checkCPURequests checkMemoryRequests
       checkEnvoproxyCPUlimit checkEnvoproxyMemorylimit checkEnvoproxyCPURequests
       checkEnvoproxyMemoryRequests k =
     to_number CpuToNumber checkCPUlimit (\<lambda>cpu_limit.
     to_number MemoryToNumber checkMemorylimit (\<lambda>memory_limit.
     to_number CpuToNumber checkCPURequests (\<lambda>cpu_request.
     to_number MemoryToNumber checkMemoryRequests (\<lambda>memory_request.
     to_number CpuToNumber checkEnvoproxyCPUlimit (\<lambda>envoproxy_cpu_limit.
     to_number MemoryToNumber checkEnvoproxyMemorylimit (\<lambda>envoproxy_memory_limit.
     to_number CpuToNumber checkEnvoproxyCPURequests (\<lambda>envoproxy_cpu_request.
     to_number MemoryToNumber checkEnvoproxyMemoryRequests (\<lambda>envoproxy_memory_request.
       if f64_less envoproxy_cpu_limit envoproxy_cpu_request
          \<or> f64_less envoproxy_memory_limit envoproxy_memory_request
          \<or> f64_less cpu_limit cpu_request
          \<or> f64_less memory_limit memory_request
       then Returns (False, Some (ErrorString ''requests is greater than limits''))
       else k))))))))"

section \<open>util/helper.go: Autoscale\<close>

text \<open>
  A statement \<open>m, ok := e.(map[string]interface{}); if !ok { return false,
  errors.New(msg) }\<close> followed by the rest \<open>k\<close>; the evaluation of \<open>e\<close> may panic.
\<close>

definition require_map :: "(json \<times> bool) option \<Rightarrow> string \<Rightarrow> (jmap \<Rightarrow> verdict) \<Rightarrow> verdict" where
  "require_map e msg k =
     (case e of
        None \<Rightarrow> Panics
      | Some (v, _) \<Rightarrow>
          (case v of
             JObject m \<Rightarrow> k m
           | _ \<Rightarrow> Returns (False, Some (ErrorString msg))))"

definition Autoscale :: "jmap \<Rightarrow> verdict" where
  "Autoscale dat =
     require_map (assert_index (fst (index dat ''resources'')) ''limits'') ''limit is required'' (\<lambda>limit.
     require_map (assert_index (fst (index dat ''resources'')) ''requests'') ''Request is required'' (\<lambda>request.
     require_map
       (Option.bind (assert_index (fst (index dat ''envoyproxy'')) ''resources'') (\<lambda>(x, _). assert_index x ''limits''))
       ''envoproxyLimit is required'' (\<lambda>envoproxyLimit.
     require_map
       (Option.bind (assert_index (fst (index dat ''envoyproxy'')) ''resources'') (\<lambda>(x, _). assert_index x ''requests''))
       ''envoproxyMemory is required'' (\<lambda>envoproxyMemory.
     require (Some (index limit ''cpu'')) ''CPU limit is required'' (\<lambda>checkCPUlimit.
     require (Some (index limit ''memory'')) ''Memory limit is required'' (\<lambda>checkMemorylimit.
     require (Some (index request ''cpu'')) ''CPU requests is required'' (\<lambda>checkCPURequests.
     require (Some (index request ''memory'')) ''Memory requests is required'' (\<lambda>checkMemoryRequests.
     require (Some (index envoproxyLimit ''cpu'')) ''Envoproxy CPU limit is required''
       (\<lambda>checkEnvoproxyCPUlimit.
     require (Some (index envoproxyLimit ''memory'')) ''Envoproxy Memory limit is required''
       (\<lambda>checkEnvoproxyMemorylimit.
     require (Some (index envoproxyMemory ''cpu'')) ''Envoproxy CPU requests is required''
       (\<lambda>checkEnvoproxyCPURequests.
     require (Some (index envoproxyMemory ''memory'')) ''Envoproxy memory requests is required''
       (\<lambda>checkEnvoproxyMemoryRequests.
     compare_limits checkCPUlimit checkMemorylimit checkCPURequests checkMemoryRequests
       checkEnvoproxyCPUlimit checkEnvoproxyMemorylimit checkEnvoproxyCPURequests
       checkEnvoproxyMemoryRequests (Returns (True, None))))))))))))))"

section \<open>The template validator\<close>

definition digit_dot :: string where
  "digit_dot = ''0123456789.''"

definition CpuUnitChecker :: regex where
  "CpuUnitChecker = Seq Bot (Seq (Group 1 (Plus digit_dot)) (Seq (Lit (CHR ''m'')) Eot))"

definition NoCpuUnitChecker :: regex where
  "NoCpuUnitChecker = Seq Bot (Seq (Group 1 (Plus digit_dot)) Eot)"

definition unit_checker :: "char \<Rightarrow> regex" where
  "unit_checker c = Seq Bot (Seq (Plus digits) (Seq (Lit c) (Seq (Lit (CHR ''i'')) Eot)))"

definition MiChecker :: regex where
  "MiChecker = unit_checker (CHR ''M'')"

definition GiChecker :: regex where
  "GiChecker = unit_checker (CHR ''G'')"

definition TiChecker :: regex where
  "TiChecker = unit_checker (CHR ''T'')"

definition PiChecker :: regex where
  "PiChecker = unit_checker (CHR ''P'')"

definition KiChecker :: regex where
  "KiChecker = unit_checker (CHR ''K'')"

text \<open>\<open>CpuChecker.IsFormat\<close> and \<open>MemoryChecker.IsFormat\<close>, lines 31 to 65.\<close>

definition CpuChecker_IsFormat :: "json \<Rightarrow> bool" where
  "CpuChecker_IsFormat input =
     (case input of
        JString asString \<Rightarrow>
          if MatchString CpuUnitChecker asString then True
          else if MatchString NoCpuUnitChecker asString then True
          else False
      | _ \<Rightarrow> True)"

definition MemoryChecker_IsFormat :: "json \<Rightarrow> bool" where
  "MemoryChecker_IsFormat input =
     (case input of
        JString asString \<Rightarrow>
          if MatchString MiChecker asString then True
          else if MatchString GiChecker asString then True
          else if MatchString TiChecker asString then True
          else if MatchString PiChecker asString then True
          else if MatchString KiChecker asString then True
          else False
      | _ \<Rightarrow> True)"

definition memoryPattern :: string where
  "memoryPattern = [CHR 0x22] @ ''100Mi'' @ [CHR 0x22] @ '' or '' @ [CHR 0x22] @ ''1Gi''
     @ [CHR 0x22] @ '' or '' @ [CHR 0x22] @ ''1Ti'' @ [CHR 0x22]"

definition cpuPattern :: string where
  "cpuPattern = [CHR 0x22] @ ''50m'' @ [CHR 0x22] @ '' or '' @ [CHR 0x22] @ ''0.05'' @ [CHR 0x22]"

text \<open>
  What the validator needs of its collaborators, for a template of any type \<open>'v\<close>:
  \<^item> \<open>Stat path\<close>: the error of \<open>os.Stat(path)\<close>;
  \<^item> \<open>schemajson path\<close>: the value of the variable \<open>schemajson\<close> after lines 79 to 85,
    that is the object decoded from the file, and \<open>JNull\<close> (the nil map) when the file
    could not be opened, read or decoded, since these errors are logged or dropped;
  \<^item> \<open>Marshal v\<close>: the JSON document that \<open>json.Marshal\<close> writes for the template, or
    its error;
  \<^item> \<open>Validate schema v\<close>: the result of \<open>gojsonschema.Validate\<close> on loaders of the
    schema and of the template, or its error. A result is valid or lists its
    errors, each with its field, the \<open>format\<close> entry of its details when that is a
    string, and its text.

  The registration of the two format checkers with gojsonschema (lines 76 and 77)
  and the lines written to the log and to the standard output are not modelled.
\<close>

record result_error =
  err_Field :: string
  err_format :: "string option"
  err_String :: string

record validation =
  Valid :: bool
  Errors :: "result_error list"

record 'v collaborators =
  Stat :: "string \<Rightarrow> error option"
  schemajson :: "string \<Rightarrow> json"
  Marshal :: "'v \<Rightarrow> error + json"
  Validate :: "json \<Rightarrow> 'v \<Rightarrow> error + validation"

text \<open>
  \<open>json.Unmarshal(data, &dat)\<close> for \<open>dat\<close> of type \<open>map[string]interface{}\<close> and \<open>data\<close>
  written by \<open>json.Marshal\<close>: an object fills the map, \<open>null\<close> leaves it nil (it reads
  as the empty map), and any other document is an error.
\<close>

definition Unmarshal_map :: "json \<Rightarrow> error + jmap" where
  "Unmarshal_map data =
     (case data of
        JObject m \<Rightarrow> Inr m
      | JNull \<Rightarrow> Inr []
      | _ \<Rightarrow> Inl (External ''json: cannot unmarshal into Go value of type map[string]interface {}''))"

text \<open>The loop over \<open>result.Errors()\<close>, lines 164 to 173.\<close>

definition error_line :: "result_error \<Rightarrow> string" where
  "error_line err =
     (if err_format err = Some ''cpu'' then
        err_Field err @ '': Format should be like '' @ cpuPattern @ [CHR 0x0A]
      else if err_format err = Some ''memory'' then
        err_Field err @ '': Format should be like '' @ memoryPattern @ [CHR 0x0A]
      else err_String err @ [CHR 0x0A])"

definition schema_path :: "string \<Rightarrow> string" where
  "schema_path schemafile = ''schema/'' @ schemafile @ ''.json''"

text \<open>The body of the branch \<open>if ok && autoscaleEnabled.(bool)\<close>, lines 108 to 157.\<close>

definition autoscale_branch :: "jmap \<Rightarrow> verdict" where
  "autoscale_branch dat =
     require (resources_field dat ''limits'' ''cpu'') ''CPU limit is required'' (\<lambda>checkCPUlimit.
     require (resources_field dat ''limits'' ''memory'') ''Memory limit is required''
       (\<lambda>checkMemorylimit.
     require (resources_field dat ''requests'' ''cpu'') ''CPU requests is required''
       (\<lambda>checkCPURequests.
     require (resources_field dat ''requests'' ''memory'') ''Memory requests is required''
       (\<lambda>checkMemoryRequests.
     require (envoyproxy_field dat ''limits'' ''cpu'') ''Envoproxy CPU limit is required''
       (\<lambda>checkEnvoproxyCPUlimit.
     require (envoyproxy_field dat ''limits'' ''memory'') ''Envoproxy Memory limit is required''
       (\<lambda>checkEnvoproxyMemorylimit.
     require (envoyproxy_field dat ''requests'' ''cpu'') ''Envoproxy CPU requests is required''
       (\<lambda>checkEnvoproxyCPURequests.
     require (envoyproxy_field dat ''requests'' ''memory'') ''Envoproxy memory requests is required''
       (\<lambda>checkEnvoproxyMemoryRequests.
     compare_limits checkCPUlimit checkMemorylimit checkCPURequests checkMemoryRequests
       checkEnvoproxyCPUlimit checkEnvoproxyMemorylimit checkEnvoproxyCPURequests
       checkEnvoproxyMemoryRequests (Returns (True, None))))))))))"

text \<open>\<open>DeploymentTemplateValidate\<close>, lines 72 to 179.\<close>

definition DeploymentTemplateValidate :: "'v collaborators \<Rightarrow> 'v \<Rightarrow> string \<Rightarrow> verdict" where
  "DeploymentTemplateValidate io templatejson schemafile =
     (if Stat io (schema_path schemafile) = None then
        (case Marshal io templatejson of
           Inl err \<Rightarrow> Returns (False, Some err)
         | Inr marshalTemplatejson \<Rightarrow>
             (case Validate io (schemajson io (schema_path schemafile)) templatejson of
                Inl err \<Rightarrow> Returns (False, Some err)
              | Inr result \<Rightarrow>
                  if Valid result then
                    (case Unmarshal_map marshalTemplatejson of
                       Inl err \<Rightarrow> Returns (False, Some err)
                     | Inr dat \<Rightarrow>
                         (case assert_index (fst (index dat ''autoscaling'')) ''enabled'' of
                            None \<Rightarrow> Panics
                          | Some (autoscaleEnabled, ok) \<Rightarrow>
                              if \<not> ok then Returns (True, None)
                              else
                                (case autoscaleEnabled of
                                   JBool b \<Rightarrow>
                                     if b then autoscale_branch dat else Returns (True, None)
                                 | _ \<Rightarrow> Panics)))
                  else Returns (False, Some (ErrorString (concat (map error_line (Errors result)))))))
      else Returns (True, None))"

section \<open>Definitions for the statements\<close>

text \<open>
  The longest prefix of a text of the form \<^verbatim>\<open>\d*e?\d*\<close> and the text after it: what
  the first group of both parsers captures at the offset where it starts.
\<close>

definition lit_split :: "string \<Rightarrow> string \<times> string" where
  "lit_split r =
     (let d1 = takeWhile is_digit r; r1 = dropWhile is_digit r
      in case r1 of
           [] \<Rightarrow> (d1, [])
         | c # r2 \<Rightarrow>
             if c = CHR ''e'' then (d1 @ c # takeWhile is_digit r2, dropWhile is_digit r2)
             else (d1, r1))"

text \<open>What the second group of the CPU pattern captures from the text after the first.\<close>

definition milli_suffix :: "string \<Rightarrow> string" where
  "milli_suffix r = (case r of [] \<Rightarrow> [] | c # _ \<Rightarrow> if c = CHR ''m'' then ''m'' else [])"

text \<open>
  What the second group of the memory pattern captures from the text after the
  first: a unit, or nothing at the end of the text; \<open>None\<close> when it does not match.
\<close>

definition unit_prefix :: "string \<Rightarrow> string option" where
  "unit_prefix r =
     (case r of
        [] \<Rightarrow> Some []
      | c # t \<Rightarrow>
          if c \<in> set ''EPTGMK'' then
            (case t of
               [] \<Rightarrow> Some [c]
             | i # _ \<Rightarrow> if i = CHR ''i'' then Some [c, i] else Some [c])
          else None)"

text \<open>
  The two groups of the CPU pattern and of the memory pattern at their leftmost
  match. The CPU pattern matches at the start of every text; the memory pattern
  matches at the first offset where a unit or the end of the text follows the
  longest text of the form \<^verbatim>\<open>\d*e?\d*\<close>.
\<close>

definition cpu_groups :: "string \<Rightarrow> string \<times> string" where
  "cpu_groups s = (fst (lit_split s), milli_suffix (snd (lit_split s)))"

fun memory_groups :: "string \<Rightarrow> string \<times> string" where
  "memory_groups [] = ([], [])"
| "memory_groups (c # r) =
     (case unit_prefix (snd (lit_split (c # r))) of
        Some u \<Rightarrow> (fst (lit_split (c # r)), u)
      | None \<Rightarrow> memory_groups r)"

declare memory_groups.simps [simp del]

text \<open>
  The result of \<open>convertResource\<close> for a literal and a suffix: the error of the
  literal with the value zero, or the number, multiplied by the entry of the
  suffix in the table when there is a suffix.
\<close>

definition scaled :: "string \<Rightarrow> float64 option \<Rightarrow> (float64 \<times> error option) exec" where
  "scaled l multiplier =
     (case ParseFloat l of
        (_, Some err) \<Rightarrow> Returns (f64_zero, Some err)
      | (num, None) \<Rightarrow>
          Returns (case multiplier of None \<Rightarrow> num | Some k \<Rightarrow> f64_mul num k, None))"

text \<open>The multipliers of the specification: a thousandth for \<open>m\<close>, and for memory the
  powers of 1000 and of 1024.\<close>

definition cpu_multiplier :: "string \<Rightarrow> float64 option" where
  "cpu_multiplier u = (if u = ''m'' then Some (round_to_f64 False 1 1000) else None)"

definition memory_units :: "(string \<times> nat) list" where
  "memory_units =
     [(''K'', 1000 ^ 1), (''M'', 1000 ^ 2), (''G'', 1000 ^ 3),
      (''T'', 1000 ^ 4), (''P'', 1000 ^ 5), (''E'', 1000 ^ 6),
      (''Ki'', 1024 ^ 1), (''Mi'', 1024 ^ 2), (''Gi'', 1024 ^ 3),
      (''Ti'', 1024 ^ 4), (''Pi'', 1024 ^ 5), (''Ei'', 1024 ^ 6)]"

definition memory_multiplier :: "string \<Rightarrow> float64 option" where
  "memory_multiplier u = map_option f64_of_nat (map_of memory_units u)"

text \<open>The number that a text of decimal digits denotes.\<close>

definition decimal :: "string \<Rightarrow> nat" where
  "decimal d = foldl (\<lambda>n c. n * 10 + digit_val c) 0 d"

text \<open>
  The language of a pattern \<^verbatim>\<open>^[cls]+w$\<close>: one or more characters of the class \<open>cls\<close>
  followed by the text \<open>w\<close>.
\<close>

definition is_string :: "json \<Rightarrow> bool" where
  "is_string j = (case j of JString _ \<Rightarrow> True | _ \<Rightarrow> False)"

definition class_plus_then :: "string \<Rightarrow> string \<Rightarrow> string \<Rightarrow> bool" where
  "class_plus_then cls w s =
     (length w < length s \<and> drop (length s - length w) s = w \<and>
      list_all (\<lambda>c. c \<in> set cls) (take (length s - length w) s))"

text \<open>
  The value at a path of keys in a document, \<open>None\<close> when a key is absent or when
  the value that should hold it is not an object.
\<close>

fun lookup_path :: "json \<Rightarrow> string list \<Rightarrow> json option" where
  "lookup_path v [] = Some v"
| "lookup_path (JObject m) (k # ks) =
     (case map_of m k of None \<Rightarrow> None | Some v \<Rightarrow> lookup_path v ks)"
| "lookup_path v (k # ks) = None"

definition is_object :: "json option \<Rightarrow> bool" where
  "is_object x = (case x of Some (JObject m) \<Rightarrow> True | _ \<Rightarrow> False)"

text \<open>
  The eight fields in the order of the checks, each with the message of its check,
  and the four blocks that hold them.
\<close>

definition required_fields :: "(string list \<times> string) list" where
  "required_fields =
     [([''resources'', ''limits'', ''cpu''], ''CPU limit is required''),
      ([''resources'', ''limits'', ''memory''], ''Memory limit is required''),
      ([''resources'', ''requests'', ''cpu''], ''CPU requests is required''),
      ([''resources'', ''requests'', ''memory''], ''Memory requests is required''),
      ([''envoyproxy'', ''resources'', ''limits'', ''cpu''], ''Envoproxy CPU limit is required''),
      ([''envoyproxy'', ''resources'', ''limits'', ''memory''],
       ''Envoproxy Memory limit is required''),
      ([''envoyproxy'', ''resources'', ''requests'', ''cpu''],
       ''Envoproxy CPU requests is required''),
      ([''envoyproxy'', ''resources'', ''requests'', ''memory''],
       ''Envoproxy memory requests is required'')]"

definition resource_blocks :: "string list list" where
  "resource_blocks =
     [[''resources'', ''limits''], [''resources'', ''requests''],
      [''envoyproxy'', ''resources'', ''limits''], [''envoyproxy'', ''resources'', ''requests'']]"

text \<open>The first of the eight fields, in the order of the checks, that is absent.\<close>

definition first_absent :: "jmap \<Rightarrow> (string list \<times> string) option" where
  "first_absent dat =
     find (\<lambda>(path, msg). lookup_path (JObject dat) path = None) required_fields"

text \<open>
  The calls of \<open>DeploymentTemplateValidate\<close> that reach the autoscaling branch: the
  schema file exists, the template is written by \<open>json.Marshal\<close> as the object \<open>dat\<close>,
  the schema accepts it, and \<open>autoscaling.enabled\<close> is \<open>true\<close> in it.
\<close>

definition autoscaling_checked :: "'v collaborators \<Rightarrow> 'v \<Rightarrow> string \<Rightarrow> jmap \<Rightarrow> bool" where
  "autoscaling_checked io templatejson schemafile dat =
     (Stat io (schema_path schemafile) = None \<and>
      Marshal io templatejson = Inr (JObject dat) \<and>
      (case Validate io (schemajson io (schema_path schemafile)) templatejson of
         Inl err \<Rightarrow> False
       | Inr result \<Rightarrow> Valid result) \<and>
      lookup_path (JObject dat) [''autoscaling'', ''enabled''] = Some (JBool True))"

text \<open>
  Collaborators for the examples: every schema file exists, a template is its own
  JSON document, and the schema accepts every template.
\<close>

definition accepting :: "json collaborators" where
  "accepting =
     \<lparr> Stat = (\<lambda>path. None),
       schemajson = (\<lambda>path. JObject []),
       Marshal = Inr,
       Validate = (\<lambda>schema v. Inr \<lparr> Valid = True, Errors = [] \<rparr>) \<rparr>"

text \<open>
  The number that a converter returns for a text, and whether a limit is parsed
  to a number strictly below the number of a request.
\<close>

definition number_of :: "(float64 \<times> error option) exec \<Rightarrow> float64" where
  "number_of r = (case r of Returns (x, e) \<Rightarrow> x | Panics \<Rightarrow> f64_zero)"

definition below :: "(string \<Rightarrow> (float64 \<times> error option) exec) \<Rightarrow> string \<Rightarrow> string \<Rightarrow> bool" where
  "below f limit request = f64_less (number_of (f limit)) (number_of (f request))"

text \<open>The map that a value holds when it is an object.\<close>

definition the_object :: "json option \<Rightarrow> jmap" where
  "the_object x = (case x of Some (JObject m) \<Rightarrow> m | _ \<Rightarrow> [])"

text \<open>
  Whether one of the four limits of a document is parsed to a number strictly
  below the number of its request: the arguments are the CPU and memory limits and
  the CPU and memory requests of the container, then those of the sidecar.
\<close>

definition some_limit_below ::
  "string \<Rightarrow> string \<Rightarrow> string \<Rightarrow> string \<Rightarrow> string \<Rightarrow> string \<Rightarrow> string \<Rightarrow> string \<Rightarrow> bool" where
  "some_limit_below cl ml cr mr ecl eml ecr emr =
     (below CpuToNumber ecl ecr \<or> below MemoryToNumber eml emr \<or>
      below CpuToNumber cl cr \<or> below MemoryToNumber ml mr)"

text \<open>Documents and collaborators for the examples.\<close>

definition document_1 :: jmap where
  "document_1 =
     [(''autoscaling'', JObject [(''enabled'', JBool True)]),
      (''resources'', JObject
         [(''limits'', JObject [(''cpu'', JString ''50m''), (''memory'', JString ''1Gi'')]),
          (''requests'', JObject [(''cpu'', JString ''50m''), (''memory'', JString ''100Mi'')])]),
      (''envoyproxy'', JObject [(''resources'', JObject
         [(''limits'', JObject [(''cpu'', JString ''1000''), (''memory'', JString ''100Mi'')]),
          (''requests'', JObject [(''cpu'', JString ''50''), (''memory'', JString ''1Gi'')])])])]"

definition document_2 :: jmap where
  "document_2 =
     [(''autoscaling'', JObject [(''enabled'', JBool True)]),
      (''resources'', JObject
         [(''limits'', JObject [(''cpu'', JString ''50m'')]),
          (''requests'', JObject [])]),
      (''envoyproxy'', JObject [(''resources'', JObject
         [(''limits'', JObject []), (''requests'', JObject [])])])]"

definition document_3 :: jmap where
  "document_3 = [(''resources'', JObject [(''limits'', JObject [])])]"

definition document_4 :: jmap where
  "document_4 = [(''autoscaling'', JObject [(''enabled'', JBool True)]), (''resources'', JObject [])]"

definition engine_fails :: "json collaborators" where
  "engine_fails = accepting \<lparr> Validate := (\<lambda>schema v. Inl (External ''EOF'')) \<rparr>"

definition marshal_fails :: "json collaborators" where
  "marshal_fails = accepting \<lparr> Marshal := (\<lambda>v. Inl (External ''json: unsupported value'')) \<rparr>"

text \<open>
  What can remain after a match of the first group that is not the longest one:
  a text that starts with a digit or with \<open>e\<close>.
\<close>

definition residue :: "string \<Rightarrow> string \<Rightarrow> bool" where
  "residue r r' = (r' = snd (lit_split r) \<or> (r' \<noteq> [] \<and> (is_digit (hd r') \<or> hd r' = CHR ''e'')))"

section \<open>The leftmost match of the two parsers\<close>

lemma is_digit_fun: "(\<lambda>c. c \<in> set digits) = is_digit"
  by (simp add: fun_eq_iff is_digit_def)

lemma ms_Star_hd:
  "\<exists>t. ms (Star digits) p r g =
     (p + length (takeWhile is_digit r), dropWhile is_digit r, g) # t"
  by (simp add: dropWhile_eq_drop is_digit_fun)

lemma ms_Opt_Lit_hd:
  "\<exists>t. ms (Opt (Lit a)) p r g =
     (case r of [] \<Rightarrow> (p, r, g) | c # r' \<Rightarrow> if c = a then (Suc p, r', g) else (p, r, g)) # t"
  by (cases r) auto

lemma ms_Seq_hd:
  assumes "ms a p r g = (p1, r1, g1) # t" and "ms b p1 r1 g1 = y # u"
  shows "\<exists>v. ms (Seq a b) p r g = y # v"
  using assms by simp

lemma ms_Group_hd:
  assumes "ms a p r g = (p1, r1, g1) # t"
  shows "\<exists>v. ms (Group k a) p r g = (p1, r1, (k, take (p1 - p) r) # g1) # v"
  using assms by simp

lemma lit_split_append: "fst (lit_split r) @ snd (lit_split r) = r"
  by (simp add: lit_split_def Let_def split: list.splits)
     (metis takeWhile_dropWhile_id)

lemma ms_lit_body_hd:
  "\<exists>t. ms (Seq (Star digits) (Seq (Opt (Lit (CHR ''e''))) (Star digits))) p r g =
     (p + length (fst (lit_split r)), snd (lit_split r), g) # t"
proof -
  let ?r1 = "dropWhile is_digit r"
  let ?p1 = "p + length (takeWhile is_digit r)"
  obtain t1 where a: "ms (Star digits) p r g = (?p1, ?r1, g) # t1"
    using ms_Star_hd by blast
  let ?st2 = "(case ?r1 of [] \<Rightarrow> (?p1, ?r1, g)
               | c # r' \<Rightarrow> if c = CHR ''e'' then (Suc ?p1, r', g) else (?p1, ?r1, g))"
  obtain t2 where b: "ms (Opt (Lit (CHR ''e''))) ?p1 ?r1 g = ?st2 # t2"
    using ms_Opt_Lit_hd by blast
  obtain p2 r2 where st2: "?st2 = (p2, r2, g)"
    by (cases ?r1; cases "hd ?r1 = CHR ''e''"; simp)
  obtain t3 where c: "ms (Star digits) p2 r2 g =
      (p2 + length (takeWhile is_digit r2), dropWhile is_digit r2, g) # t3"
    using ms_Star_hd by blast
  have fin: "(p2 + length (takeWhile is_digit r2), dropWhile is_digit r2, g) =
      (p + length (fst (lit_split r)), snd (lit_split r), g)"
  proof (cases ?r1)
    case Nil
    show ?thesis using st2 unfolding lit_split_def Let_def Nil by simp
  next
    case (Cons c r')
    have nd: "\<not> is_digit c"
      using Cons by (metis hd_dropWhile list.sel(1) list.distinct(1))
    show ?thesis using st2 nd unfolding lit_split_def Let_def Cons
      by (auto split: if_splits)
  qed
  from b st2 have b': "ms (Opt (Lit (CHR ''e''))) ?p1 ?r1 g = (p2, r2, g) # t2" by simp
  from ms_Seq_hd [OF b' c] obtain v where
    d: "ms (Seq (Opt (Lit (CHR ''e''))) (Star digits)) ?p1 ?r1 g =
      (p2 + length (takeWhile is_digit r2), dropWhile is_digit r2, g) # v" by blast
  from ms_Seq_hd [OF a d] fin show ?thesis by simp
qed

lemma ms_lit_re_hd:
  "\<exists>t. ms lit_re p r g =
     (p + length (fst (lit_split r)), snd (lit_split r), (1, fst (lit_split r)) # g) # t"
proof -
  obtain t where a: "ms (Seq (Star digits) (Seq (Opt (Lit (CHR ''e''))) (Star digits))) p r g =
     (p + length (fst (lit_split r)), snd (lit_split r), g) # t"
    using ms_lit_body_hd by blast
  have "take (length (fst (lit_split r))) r = fst (lit_split r)"
    by (metis lit_split_append append_eq_conv_conj)
  with ms_Group_hd [OF a, of 1] show ?thesis unfolding lit_re_def by simp
qed

lemma convertResource_found:
  assumes "FindAllStringSubmatch (regex rp) s = [[w, l, u]]"
  shows "convertResource rp s =
     (case ParseFloat l of
        (_, Some err) \<Rightarrow> Returns (f64_zero, Some err)
      | (num, None) \<Rightarrow>
          if u \<noteq> [] then
            (case map_of (conversions rp) u of
               Some suffix \<Rightarrow> Returns (f64_mul num suffix, None)
             | None \<Rightarrow> Returns (f64_zero, Some (pattern_error rp s)))
          else Returns (num, None))"
  using assms by (simp add: convertResource_def split: prod.splits option.splits)

lemma upt_1_3: "[Suc 0..<3] = [Suc 0, 2]"
  by (simp add: numeral_3_eq_3 numeral_2_eq_2 upt_rec)

lemma ms_milli_hd:
  "\<exists>t. ms (Group 2 (Opt (Lit (CHR ''m'')))) p r g =
     (p + length (milli_suffix r), drop (length (milli_suffix r)) r, (2, milli_suffix r) # g) # t"
  by (cases r) (auto simp: milli_suffix_def)

lemma find_cpu:
  "FindAllStringSubmatch (regex cpuParser) s =
     [[fst (cpu_groups s) @ snd (cpu_groups s), fst (cpu_groups s), snd (cpu_groups s)]]"
proof -
  let ?l = "fst (lit_split s)" and ?r = "snd (lit_split s)"
  obtain t where a: "ms lit_re 0 s [] = (0 + length ?l, ?r, [(1, ?l)]) # t"
    using ms_lit_re_hd by blast
  obtain u where b: "ms (Group 2 (Opt (Lit (CHR ''m'')))) (0 + length ?l) ?r [(1, ?l)] =
     (0 + length ?l + length (milli_suffix ?r), drop (length (milli_suffix ?r)) ?r,
      (2, milli_suffix ?r) # [(1, ?l)]) # u"
    using ms_milli_hd by blast
  from ms_Seq_hd [OF a b] obtain v where
    c: "ms (regex cpuParser) 0 s [] =
      (0 + length ?l + length (milli_suffix ?r), drop (length (milli_suffix ?r)) ?r,
      (2, milli_suffix ?r) # [(1, ?l)]) # v"
    by (auto simp: cpuParser_def)
  have s: "s = ?l @ ?r" by (simp add: lit_split_append)
  have m: "take (length (milli_suffix ?r)) ?r = milli_suffix ?r"
    by (cases ?r) (auto simp: milli_suffix_def)
  have "take (length ?l + length (milli_suffix ?r)) s = ?l @ milli_suffix ?r"
    by (subst s) (simp add: m)
  moreover have "num_groups (regex cpuParser) = 2"
    by (simp add: cpuParser_def lit_re_def)
  ultimately show ?thesis using c
    by (simp add: FindAllStringSubmatch_def submatch_def group_text_def upt_1_3 cpu_groups_def
        del: ms.simps)
qed

lemma ms_Star_set:
  assumes "(p', r', g') \<in> set (ms (Star digits) p r g)"
  shows "g' = g \<and> (r' = dropWhile is_digit r \<or>
           (r' \<noteq> [] \<and> is_digit (hd r') \<and> dropWhile is_digit r' = dropWhile is_digit r))"
proof -
  let ?n = "length (takeWhile is_digit r)"
  from assms obtain k where "k < Suc ?n" and "(p', r', g') = (p + k, drop k r, g)"
    by (auto simp: is_digit_fun)
  then have k: "k \<le> ?n" "r' = drop k r" "g' = g"
    by simp_all
  show ?thesis
  proof (cases "k = ?n")
    case True
    then show ?thesis using k by (simp add: dropWhile_eq_drop)
  next
    case False
    with k have lt: "k < ?n" by simp
    have r: "r = takeWhile is_digit r @ dropWhile is_digit r" by simp
    have d: "drop k r = drop k (takeWhile is_digit r) @ dropWhile is_digit r"
      by (subst r) (simp add: lt less_imp_le del: takeWhile_dropWhile_id)
    have ne: "drop k (takeWhile is_digit r) \<noteq> []" using lt by simp
    have all: "\<forall>x \<in> set (drop k (takeWhile is_digit r)). is_digit x"
      by (meson in_set_dropD set_takeWhileD)
    have "is_digit (hd (drop k (takeWhile is_digit r)))"
      using ne all by (meson hd_in_set)
    moreover have "dropWhile is_digit (drop k r) = dropWhile is_digit r"
      by (subst d) (simp add: all dropWhile_append2 del: takeWhile_dropWhile_id)
    ultimately show ?thesis using k d ne by (simp del: takeWhile_dropWhile_id)
  qed
qed

lemma ms_Opt_Lit_set:
  assumes "(p', r', g') \<in> set (ms (Opt (Lit a)) p r g)"
  shows "g' = g \<and> (r' = r \<or> r = a # r')"
  using assms by (cases r) (auto split: if_splits)

lemma residue_first: "residue r (dropWhile is_digit r)"
proof (cases "dropWhile is_digit r")
  case Nil
  show ?thesis unfolding residue_def lit_split_def Let_def Nil by simp
next
  case (Cons c t)
  show ?thesis unfolding residue_def lit_split_def Let_def Cons by simp
qed

lemma ms_lit_body_set:
  assumes "(p', r', g') \<in> set (ms (Seq (Star digits) (Seq (Opt (Lit (CHR ''e''))) (Star digits))) p r g)"
  shows "g' = g \<and> residue r r'"
proof -
  from assms obtain p1 r1 g1 p2 r2 g2 where
    a: "(p1, r1, g1) \<in> set (ms (Star digits) p r g)" and
    b: "(p2, r2, g2) \<in> set (ms (Opt (Lit (CHR ''e''))) p1 r1 g1)" and
    c: "(p', r', g') \<in> set (ms (Star digits) p2 r2 g2)"
    by (auto simp del: ms.simps(3,9))
  from ms_Star_set [OF a] have g1: "g1 = g" and
    r1: "r1 = dropWhile is_digit r \<or>
          (r1 \<noteq> [] \<and> is_digit (hd r1) \<and> dropWhile is_digit r1 = dropWhile is_digit r)"
    by auto
  from ms_Opt_Lit_set [OF b] have g2: "g2 = g1" and r2: "r2 = r1 \<or> r1 = CHR ''e'' # r2"
    by auto
  from ms_Star_set [OF c] have g': "g' = g2" and
    r': "r' = dropWhile is_digit r2 \<or> (r' \<noteq> [] \<and> is_digit (hd r'))"
    by auto
  have e_not_digit: "\<not> is_digit (CHR ''e'')"
    by (simp add: is_digit_def digits_def)
  have "residue r r'"
  proof (cases "r' \<noteq> [] \<and> is_digit (hd r')")
    case True
    then show ?thesis by (simp add: residue_def)
  next
    case False
    with r' have r'eq: "r' = dropWhile is_digit r2" by blast
    from r2 show ?thesis
    proof
      assume same: "r2 = r1"
      from r1 have "dropWhile is_digit r1 = dropWhile is_digit r"
        by auto
      with same r'eq show ?thesis by (simp add: residue_first)
    next
      assume e: "r1 = CHR ''e'' # r2"
      with r1 e_not_digit have "dropWhile is_digit r = CHR ''e'' # r2"
        by auto
      then show ?thesis using r'eq
        by (simp add: residue_def lit_split_def Let_def)
    qed
  qed
  with g1 g2 g' show ?thesis by simp
qed

lemma ms_lit_re_set:
  assumes "(p', r', g') \<in> set (ms lit_re p r g)"
  shows "residue r r'"
  using assms ms_lit_body_set unfolding lit_re_def
  by (auto simp del: ms.simps(3,7,9)) 

lemma unit_prefix_residue:
  assumes "residue r r'" and "unit_prefix (snd (lit_split r)) = None"
  shows "unit_prefix r' = None"
proof (cases "r' = snd (lit_split r)")
  case True
  with assms show ?thesis by simp
next
  case False
  with assms obtain c t where "r' = c # t" and "is_digit c \<or> c = CHR ''e''"
    by (cases r') (auto simp: residue_def)
  then show ?thesis
    by (auto simp: unit_prefix_def is_digit_def digits_def)
qed

lemma ms_unit_re:
  "ms (unit_re a) p r g =
     (case r of
        [] \<Rightarrow> []
      | c # t \<Rightarrow>
          if c = a then
            (case t of
               [] \<Rightarrow> [(Suc p, [], g)]
             | i # t' \<Rightarrow> if i = CHR ''i'' then [(Suc (Suc p), t', g), (Suc p, t, g)] else [(Suc p, t, g)])
          else [])"
  by (cases r; cases "tl r") (auto simp: unit_re_def)

lemma ms_units_none:
  assumes "unit_prefix r = None"
  shows "ms units_re p r g = []"
proof (cases r)
  case Nil
  with assms show ?thesis by (simp add: unit_prefix_def)
next
  case (Cons c t)
  with assms have "c \<noteq> CHR ''E''" "c \<noteq> CHR ''P''" "c \<noteq> CHR ''T''" "c \<noteq> CHR ''G''" "c \<noteq> CHR ''M''" "c \<noteq> CHR ''K''"
    by (auto simp: unit_prefix_def split: if_splits list.splits)
  with Cons show ?thesis
    by (simp add: units_re_def ms_unit_re)
qed

lemma ms_units_hd:
  assumes "unit_prefix r = Some u"
  shows "\<exists>t. ms units_re p r g = (p + length u, drop (length u) r, (2, u) # g) # t"
proof (cases r)
  case Nil
  with assms show ?thesis by (simp add: unit_prefix_def units_re_def ms_unit_re)
next
  case (Cons c t)
  with assms have c: "c = CHR ''E'' \<or> c = CHR ''P'' \<or> c = CHR ''T'' \<or> c = CHR ''G'' \<or> c = CHR ''M'' \<or> c = CHR ''K''"
    by (auto simp: unit_prefix_def split: if_splits)
  have u: "u = (case t of [] \<Rightarrow> [c] | i # _ \<Rightarrow> if i = CHR ''i'' then [c, i] else [c])"
    using assms Cons by (auto simp: unit_prefix_def split: if_splits list.splits)
  from c show ?thesis
    unfolding Cons u units_re_def
    by (elim disjE; cases t; simp add: ms_unit_re)
qed

lemma ms_memory_none:
  assumes "unit_prefix (snd (lit_split r)) = None"
  shows "ms (regex memoryParser) p r g = []"
proof -
  have "\<And>st. st \<in> set (ms lit_re p r g) \<Longrightarrow> (case st of (p', r', g') \<Rightarrow> ms units_re p' r' g') = []"
  proof -
    fix st assume st: "st \<in> set (ms lit_re p r g)"
    obtain p' r' g' where eq: "st = (p', r', g')" by (cases st)
    with st ms_lit_re_set have "residue r r'" by blast
    then have "unit_prefix r' = None" using assms by (rule unit_prefix_residue)
    with eq show "(case st of (p', r', g') \<Rightarrow> ms units_re p' r' g') = []"
      by (simp add: ms_units_none)
  qed
  then show ?thesis
    by (simp add: memoryParser_def)
qed

lemma ms_memory_hd:
  assumes "unit_prefix (snd (lit_split r)) = Some u"
  shows "\<exists>t. ms (regex memoryParser) p r g =
     (p + length (fst (lit_split r)) + length u, drop (length u) (snd (lit_split r)),
      (2, u) # (1, fst (lit_split r)) # g) # t"
proof -
  obtain t where a: "ms lit_re p r g =
     (p + length (fst (lit_split r)), snd (lit_split r), (1, fst (lit_split r)) # g) # t"
    using ms_lit_re_hd by blast
  from ms_units_hd [OF assms] obtain t' where
    b: "ms units_re (p + length (fst (lit_split r))) (snd (lit_split r)) ((1, fst (lit_split r)) # g) =
     (p + length (fst (lit_split r)) + length u, drop (length u) (snd (lit_split r)),
      (2, u) # (1, fst (lit_split r)) # g) # t'" by blast
  from ms_Seq_hd [OF a b] show ?thesis by (simp add: memoryParser_def)
qed

lemma unit_prefix_take: "unit_prefix r = Some u \<Longrightarrow> take (length u) r = u"
  by (auto simp: unit_prefix_def split: list.splits if_splits)

lemma num_groups_memory: "num_groups (regex memoryParser) = 2"
  by (simp add: memoryParser_def lit_re_def units_re_def unit_re_def)

lemma search_memory:
  "\<exists>m. search (regex memoryParser) p r = Some m \<and>
     submatch (regex memoryParser) m =
       [fst (memory_groups r) @ snd (memory_groups r), fst (memory_groups r), snd (memory_groups r)]"
proof (induction r arbitrary: p)
  case Nil
  have "unit_prefix (snd (lit_split [])) = Some []"
    by (simp add: lit_split_def unit_prefix_def)
  from ms_memory_hd [OF this, of p "[]"] show ?case
    by (auto simp: submatch_def num_groups_memory group_text_def upt_1_3 lit_split_def
        memory_groups.simps simp del: ms.simps)
next
  case (Cons c r)
  show ?case
  proof (cases "unit_prefix (snd (lit_split (c # r)))")
    case None
    then have "ms (regex memoryParser) p (c # r) [] = []" by (rule ms_memory_none)
    with None Cons.IH [of "Suc p"] show ?thesis
      by (simp add: memory_groups.simps del: ms.simps)
  next
    case (Some u)
    let ?l = "fst (lit_split (c # r))"
    have s: "c # r = ?l @ snd (lit_split (c # r))" by (simp add: lit_split_append)
    have "take (length ?l + length u) (c # r) = ?l @ u"
      by (subst s) (simp add: unit_prefix_take [OF Some] del: lit_split_append)
    with Some ms_memory_hd [OF Some, of p "[]"] show ?thesis
      by (auto simp: submatch_def num_groups_memory group_text_def upt_1_3 memory_groups.simps
          simp del: ms.simps)
  qed
qed

lemma find_memory:
  "FindAllStringSubmatch (regex memoryParser) s =
     [[fst (memory_groups s) @ snd (memory_groups s), fst (memory_groups s), snd (memory_groups s)]]"
  using search_memory [of 0 s] by (auto simp: FindAllStringSubmatch_def simp del: search.simps)


lemma milli_suffix_cases: "milli_suffix r = [] \<or> milli_suffix r = ''m''"
  by (cases r) (auto simp: milli_suffix_def)

lemma CpuToNumber_scaled:
  "CpuToNumber s = scaled (fst (cpu_groups s)) (cpu_multiplier (snd (cpu_groups s)))"
proof -
  have m: "map_of (conversions cpuParser) ''m'' = Some (round_to_f64 False 1 1000)"
    by (simp add: cpuParser_def)
  from milli_suffix_cases [of "snd (lit_split s)"] show ?thesis
    by (auto simp: CpuToNumber_def convertResource_found [OF find_cpu] scaled_def
        cpu_multiplier_def cpu_groups_def m split: prod.splits option.splits)
qed

lemma unit_prefix_range:
  assumes "unit_prefix r = Some u"
  shows "u = [] \<or> u \<in> fst ` set memory_units"
  using assms
  by (auto simp: unit_prefix_def memory_units_def split: list.splits if_splits)

lemma memory_groups_range: "snd (memory_groups s) = [] \<or> snd (memory_groups s) \<in> fst ` set memory_units"
  by (induction s) (auto simp: memory_groups.simps dest: unit_prefix_range split: option.splits)

lemma conversions_memory:
  "u \<in> fst ` set memory_units \<Longrightarrow> map_of (conversions memoryParser) u = memory_multiplier u"
  by (auto simp: memory_units_def memoryParser_def memory_multiplier_def)

lemma memory_multiplier_Some:
  "u \<in> fst ` set memory_units \<Longrightarrow> \<exists>k. memory_multiplier u = Some k"
  by (auto simp: memory_units_def memory_multiplier_def)

lemma memory_multiplier_Nil: "memory_multiplier [] = None"
  by (simp add: memory_units_def memory_multiplier_def)

lemma MemoryToNumber_scaled:
  "MemoryToNumber s = scaled (fst (memory_groups s)) (memory_multiplier (snd (memory_groups s)))"
proof (cases "snd (memory_groups s) = []")
  case True
  then show ?thesis
    by (auto simp: MemoryToNumber_def convertResource_found [OF find_memory] scaled_def
        memory_multiplier_Nil split: prod.splits option.splits)
next
  case False
  with memory_groups_range [of s] have u: "snd (memory_groups s) \<in> fst ` set memory_units"
    by blast
  from memory_multiplier_Some [OF u] obtain k where k: "memory_multiplier (snd (memory_groups s)) = Some k"
    by blast
  with conversions_memory [OF u] False show ?thesis
    by (auto simp: MemoryToNumber_def convertResource_found [OF find_memory] scaled_def
        split: prod.splits option.splits)
qed


lemma digit_facts:
  assumes "is_digit c"
  shows "c \<noteq> CHR ''.''" "c \<noteq> CHR '',''" "c \<noteq> CHR ''e''" "c \<noteq> CHR ''E''" "c \<noteq> CHR ''+''"
    "c \<noteq> CHR ''-''" "c \<noteq> CHR ''i''" "c \<noteq> CHR ''I''" "c \<noteq> CHR ''n''" "c \<noteq> CHR ''N''"
  using assms by (auto simp: is_digit_def digits_def)

lemma non_digits:
  "\<not> is_digit (CHR ''e'')" "\<not> is_digit (CHR ''E'')" "\<not> is_digit (CHR '','')"
  by (simp_all add: is_digit_def digits_def)

lemma mant_loop_digits:
  assumes "list_all is_digit ds" and "nd = 0 \<longrightarrow> m = 0"
  shows "\<exists>nd' dp'. mant_loop ds (False, sd, nd, dp, m) =
           ((False, sd \<or> ds \<noteq> [], nd', dp', foldl (\<lambda>n c. n * 10 + digit_val c) m ds), [])"
  using assms
proof (induction ds arbitrary: sd nd dp m)
  case Nil
  then show ?case by simp
next
  case (Cons c ds)
  then have c: "is_digit c" and ds: "list_all is_digit ds" by simp_all
  show ?case
  proof (cases "c = CHR ''0'' \<and> nd = 0")
    case True
    with Cons.prems have m: "m = 0" by simp
    from Cons.IH [OF ds, of nd 0 True "dp - 1"] True
    obtain nd' dp' where
      "mant_loop ds (False, True, nd, dp - 1, 0) =
         ((False, True, nd', dp', foldl (\<lambda>n c. n * 10 + digit_val c) 0 ds), [])"
      by auto
    with True m c show ?thesis
      by (simp add: digit_facts digit_val_def)
  next
    case False
    from Cons.IH [OF ds, of "nd + 1" "m * 10 + digit_val c" True dp]
    obtain nd' dp' where
      "mant_loop ds (False, True, nd + 1, dp, m * 10 + digit_val c) =
         ((False, True, nd', dp', foldl (\<lambda>n c. n * 10 + digit_val c) (m * 10 + digit_val c) ds), [])"
      by auto
    with False c show ?thesis
      by (auto simp add: digit_facts)
  qed
qed

lemma strconv_ParseFloat_digits:
  assumes "d \<noteq> []" and "list_all is_digit d"
  shows "strconv_ParseFloat d =
     (case f64_of_nat (decimal d) of
        Inf sg \<Rightarrow> (Inf sg, Some (NumError ''ParseFloat'' d ErrRange))
      | f \<Rightarrow> (f, None))"
proof -
  from assms obtain c t where d: "d = c # t" and c: "is_digit c"
    by (cases d) auto
  have sp: "special d = None"
    using c by (simp add: special_def d digit_facts)
  from mant_loop_digits [OF assms(2), of 0 0 False 0] assms(1)
  obtain nd' dp' where ml: "mant_loop d (False, False, 0, 0, 0) =
      ((False, True, nd', dp', decimal d), [])"
    by (auto simp: decimal_def)
  have rf: "readFloat d = Some (False, decimal d, 0, [])"
    using ml c by (simp add: readFloat_def d digit_facts)
  show ?thesis
    by (simp add: strconv_ParseFloat_def sp rf decimal_to_f64_def f64_of_nat_def)
qed

lemma IndexAny_None: "set s \<inter> set chars = {} \<Longrightarrow> IndexAny s chars = None"
  by (induction s) auto

lemma ParseFloat_digits:
  assumes "d \<noteq> []" and "list_all is_digit d"
  shows "ParseFloat d =
     (case f64_of_nat (decimal d) of
        Inf sg \<Rightarrow> (Inf sg, Some (NumError ''ParseFloat'' d ErrRange))
      | f \<Rightarrow> (f, None))"
proof -
  have f: "filter (\<lambda>c. c \<noteq> CHR '','') d = d"
    using assms(2) by (auto simp: filter_id_conv list_all_iff digit_facts)
  have "set d \<inter> set ''eE'' = {}"
    using assms(2) non_digits by (auto simp: list_all_iff)
  then have i: "IndexAny d ''eE'' = None" by (rule IndexAny_None)
  show ?thesis
    by (simp add: ParseFloat_def f i strconv_ParseFloat_digits [OF assms] Let_def
        split: prod.splits option.splits float64.splits)
qed


section \<open>Evaluating the rounding\<close>

lemma round_eval:
  assumes "bitlen p = bp" and "bitlen q = bq" and "p \<noteq> 0"
    and "max (- 1074)
           ((if q * 2 ^ nat (int bp - int bq) \<le> p * 2 ^ nat (- (int bp - int bq))
             then int bp - int bq else int bp - int bq - 1) - 52) = e"
    and "round_half_even (p * 2 ^ nat (- e)) (q * 2 ^ nat e) = m"
    and "m \<noteq> 2 ^ 53" and "e \<le> 971"
  shows "round_to_f64 neg p q = Fin neg m e"
  unfolding round_to_f64_def floor_log2_def Let_def assms(1) assms(2) assms(4) assms(5)
  using assms(3) assms(6) assms(7) by simp

lemma f64_of_nat_1: "f64_of_nat 1 = Fin False 4503599627370496 (- 52)"
  unfolding f64_of_nat_def
  by (rule round_eval [where bp = 1 and bq = 1]) (simp_all add: bitlen.simps round_half_even_def)

lemma f64_of_nat_2: "f64_of_nat 2 = Fin False 4503599627370496 (- 51)"
  unfolding f64_of_nat_def
  by (rule round_eval [where bp = 2 and bq = 1]) (simp_all add: bitlen.simps round_half_even_def)

lemma f64_of_nat_50: "f64_of_nat 50 = Fin False 7036874417766400 (- 47)"
  unfolding f64_of_nat_def
  by (rule round_eval [where bp = 6 and bq = 1]) (simp_all add: bitlen.simps round_half_even_def)

lemma f64_of_nat_100: "f64_of_nat 100 = Fin False 7036874417766400 (- 46)"
  unfolding f64_of_nat_def
  by (rule round_eval [where bp = 7 and bq = 1]) (simp_all add: bitlen.simps round_half_even_def)

lemma f64_of_nat_1000: "f64_of_nat 1000 = Fin False 8796093022208000 (- 43)"
  unfolding f64_of_nat_def
  by (rule round_eval [where bp = 10 and bq = 1]) (simp_all add: bitlen.simps round_half_even_def)

lemma f64_of_nat_1024: "f64_of_nat 1024 = Fin False 4503599627370496 (- 42)"
  unfolding f64_of_nat_def
  by (rule round_eval [where bp = 11 and bq = 1]) (simp_all add: bitlen.simps round_half_even_def)

lemma f64_of_nat_1048576: "f64_of_nat 1048576 = Fin False 4503599627370496 (- 32)"
  unfolding f64_of_nat_def
  by (rule round_eval [where bp = 21 and bq = 1]) (simp_all add: bitlen.simps round_half_even_def)

lemma f64_of_nat_1073741824: "f64_of_nat 1073741824 = Fin False 4503599627370496 (- 22)"
  unfolding f64_of_nat_def
  by (rule round_eval [where bp = 31 and bq = 1]) (simp_all add: bitlen.simps round_half_even_def)

lemma f64_of_nat_104857600: "f64_of_nat 104857600 = Fin False 7036874417766400 (- 26)"
  unfolding f64_of_nat_def
  by (rule round_eval [where bp = 27 and bq = 1]) (simp_all add: bitlen.simps round_half_even_def)

lemma round_milli: "round_to_f64 False 1 1000 = Fin False 4611686018427388 (- 62)"
  by (rule round_eval [where bp = 1 and bq = 10]) (simp_all add: bitlen.simps round_half_even_def)

lemma round_twentieth: "round_to_f64 False 1 20 = Fin False 7205759403792794 (- 57)"
  by (rule round_eval [where bp = 1 and bq = 5]) (simp_all add: bitlen.simps round_half_even_def)

lemma mul_50_milli: "f64_mul (Fin False 7036874417766400 (- 47)) (Fin False 4611686018427388 (- 62)) = Fin False 7205759403792794 (- 57)"
proof -
  have "round_to_f64 False 32451855365842673353855546163200 649037107316853453566312041152512 = Fin False 7205759403792794 (- 57)"
    by (rule round_eval [where bp = 105 and bq = 110]) (simp_all add: bitlen.simps round_half_even_def)
  then show ?thesis by simp
qed

lemma mul_1_Gi: "f64_mul (Fin False 4503599627370496 (- 52)) (Fin False 4503599627370496 (- 22)) = Fin False 4503599627370496 (- 22)"
proof -
  have "round_to_f64 False 20282409603651670423947251286016 18889465931478580854784 = Fin False 4503599627370496 (- 22)"
    by (rule round_eval [where bp = 105 and bq = 75]) (simp_all add: bitlen.simps round_half_even_def)
  then show ?thesis by simp
qed

lemma mul_100_Mi: "f64_mul (Fin False 7036874417766400 (- 46)) (Fin False 4503599627370496 (- 32)) = Fin False 7036874417766400 (- 26)"
proof -
  have "round_to_f64 False 31691265005705735037417580134400 302231454903657293676544 = Fin False 7036874417766400 (- 26)"
    by (rule round_eval [where bp = 105 and bq = 79]) (simp_all add: bitlen.simps round_half_even_def)
  then show ?thesis by simp
qed

lemma f64_of_nat_5: "f64_of_nat 5 = Fin False 5629499534213120 (- 50)"
  unfolding f64_of_nat_def
  by (rule round_eval [where bp = 3 and bq = 1]) (simp_all add: bitlen.simps round_half_even_def)

lemma f64_of_nat_536870912: "f64_of_nat 536870912 = Fin False 4503599627370496 (- 23)"
  unfolding f64_of_nat_def
  by (rule round_eval [where bp = 30 and bq = 1]) (simp_all add: bitlen.simps round_half_even_def)

lemma f64_of_nat_5368709120: "f64_of_nat 5368709120 = Fin False 5629499534213120 (- 20)"
  unfolding f64_of_nat_def
  by (rule round_eval [where bp = 33 and bq = 1]) (simp_all add: bitlen.simps round_half_even_def)

lemma round_half: "round_to_f64 False 1 2 = Fin False 4503599627370496 (- 53)"
  by (rule round_eval [where bp = 1 and bq = 2]) (simp_all add: bitlen.simps round_half_even_def)

lemmas round_half_Suc_0 = round_half [unfolded One_nat_def]

lemma mul_5_Gi: "f64_mul (Fin False 5629499534213120 (- 50)) (Fin False 4503599627370496 (- 22)) = Fin False 5629499534213120 (- 20)"
proof -
  have "round_to_f64 False 25353012004564588029934064107520 4722366482869645213696 = Fin False 5629499534213120 (- 20)"
    by (rule round_eval [where bp = 105 and bq = 73]) (simp_all add: bitlen.simps round_half_even_def)
  then show ?thesis by simp
qed

lemma mul_half_Gi: "f64_mul (Fin False 4503599627370496 (- 53)) (Fin False 4503599627370496 (- 22)) = Fin False 4503599627370496 (- 23)"
proof -
  have "round_to_f64 False 20282409603651670423947251286016 37778931862957161709568 = Fin False 4503599627370496 (- 23)"
    by (rule round_eval [where bp = 105 and bq = 76]) (simp_all add: bitlen.simps round_half_even_def)
  then show ?thesis by simp
qed

lemmas f64_of_nat_Suc_0 = f64_of_nat_1 [unfolded One_nat_def]

lemmas round_milli_Suc_0 = round_milli [unfolded One_nat_def]

lemmas round_twentieth_Suc_0 = round_twentieth [unfolded One_nat_def]

section \<open>Examples of the quantity parser\<close>

lemmas groups_eval = cpu_groups_def lit_split_def milli_suffix_def unit_prefix_def
  is_digit_def digits_def Let_def

lemmas digit_eval = decimal_def digit_val_def is_digit_def digits_def

lemma ParseFloat_examples:
  "ParseFloat ''0'' = (Fin False 0 (- 1074), None)"
  "ParseFloat ''000'' = (Fin False 0 (- 1074), None)"
  "ParseFloat ''1'' = (f64_of_nat 1, None)"
  "ParseFloat ''2'' = (f64_of_nat 2, None)"
  "ParseFloat ''50'' = (f64_of_nat 50, None)"
  "ParseFloat ''100'' = (f64_of_nat 100, None)"
  "ParseFloat ''1000'' = (f64_of_nat 1000, None)"
proof -
  have z: "f64_of_nat 0 = Fin False 0 (- 1074)"
    by (simp add: f64_of_nat_def round_to_f64_def)
  show "ParseFloat ''0'' = (Fin False 0 (- 1074), None)"
    by (simp add: ParseFloat_digits digit_eval z)
  show "ParseFloat ''000'' = (Fin False 0 (- 1074), None)"
    by (simp add: ParseFloat_digits digit_eval z)
  show "ParseFloat ''1'' = (f64_of_nat 1, None)"
    by (simp add: ParseFloat_digits digit_eval f64_of_nat_Suc_0)
  show "ParseFloat ''2'' = (f64_of_nat 2, None)"
    by (simp add: ParseFloat_digits digit_eval f64_of_nat_2)
  show "ParseFloat ''50'' = (f64_of_nat 50, None)"
    by (simp add: ParseFloat_digits digit_eval f64_of_nat_50)
  show "ParseFloat ''100'' = (f64_of_nat 100, None)"
    by (simp add: ParseFloat_digits digit_eval f64_of_nat_100)
  show "ParseFloat ''1000'' = (f64_of_nat 1000, None)"
    by (simp add: ParseFloat_digits digit_eval f64_of_nat_1000)
qed

lemma ParseFloat_1e3: "ParseFloat ''1e3'' = (f64_of_nat 1000, None)"
proof -
  have "readFloat ''1e3'' = Some (False, 1, 3, [])"
    by (simp add: readFloat_def exp_part_def exp_loop_def is_digit_def digits_def digit_val_def)
  moreover have "special ''1e3'' = None"
    by (simp add: special_def)
  moreover have "decimal_to_f64 False 1 3 = f64_of_nat 1000"
    by (simp add: decimal_to_f64_def f64_of_nat_def)
  ultimately have "strconv_ParseFloat ''1e3'' = (f64_of_nat 1000, None)"
    by (simp add: strconv_ParseFloat_def f64_of_nat_1000)
  then show ?thesis by (simp add: ParseFloat_def)
qed

lemma strconv_ParseFloat_0_05: "strconv_ParseFloat ''0.05'' = (round_to_f64 False 1 20, None)"
proof -
  have "readFloat ''0.05'' = Some (False, 5, - 2, [])"
    by (simp add: readFloat_def is_digit_def digits_def digit_val_def)
  moreover have "special ''0.05'' = None"
    by (simp add: special_def)
  moreover have "decimal_to_f64 False 5 (- 2) = round_to_f64 False 5 100"
    by (simp add: decimal_to_f64_def)
  moreover have "round_to_f64 False 5 100 = Fin False 7205759403792794 (- 57)"
    by (rule round_eval [where bp = 3 and bq = 7]) (simp_all add: bitlen.simps round_half_even_def)
  ultimately show ?thesis
    by (simp add: strconv_ParseFloat_def round_twentieth_Suc_0)
qed

lemma cpu_groups_examples:
  "cpu_groups ''0.05'' = (''0'', '''')"
  "cpu_groups ''50m'' = (''50'', ''m'')"
  "cpu_groups ''1e3'' = (''1e3'', '''')"
  "cpu_groups ''50x'' = (''50'', '''')"
  "cpu_groups ''50'' = (''50'', '''')"
  "cpu_groups ''1,000'' = (''1'', '''')"
  "cpu_groups ''1000'' = (''1000'', '''')"
  "cpu_groups '''' = ('''', '''')"
  by (simp_all add: groups_eval)

lemma memory_groups_examples:
  "memory_groups ''1Gi'' = (''1'', ''Gi'')"
  "memory_groups ''100Mi'' = (''100'', ''Mi'')"
  "memory_groups ''1,000'' = (''000'', '''')"
  "memory_groups ''1000'' = (''1000'', '''')"
  by (simp_all add: groups_eval memory_groups.simps)

lemma multiplier_examples:
  "cpu_multiplier ''m'' = Some (round_to_f64 False 1 1000)"
  "cpu_multiplier '''' = None"
  "memory_multiplier '''' = None"
  "memory_multiplier ''Gi'' = Some (f64_of_nat 1073741824)"
  "memory_multiplier ''Mi'' = Some (f64_of_nat 1048576)"
  "memory_multiplier ''Ki'' = Some (f64_of_nat 1024)"
  by (simp_all add: cpu_multiplier_def memory_multiplier_def memory_units_def)

lemma ParseFloat_5: "ParseFloat ''5'' = (f64_of_nat 5, None)"
  by (simp add: ParseFloat_digits digit_eval f64_of_nat_5)

lemma strconv_ParseFloat_0_5: "strconv_ParseFloat ''0.5'' = (round_to_f64 False 1 2, None)"
proof -
  have "readFloat ''0.5'' = Some (False, 5, - 1, [])"
    by (simp add: readFloat_def is_digit_def digits_def digit_val_def)
  moreover have "special ''0.5'' = None"
    by (simp add: special_def)
  moreover have "decimal_to_f64 False 5 (- 1) = round_to_f64 False 5 10"
    by (simp add: decimal_to_f64_def)
  moreover have "round_to_f64 False 5 10 = Fin False 4503599627370496 (- 53)"
    by (rule round_eval [where bp = 3 and bq = 4]) (simp_all add: bitlen.simps round_half_even_def)
  ultimately show ?thesis
    by (simp add: strconv_ParseFloat_def round_half_Suc_0)
qed

lemma memory_groups_fractions:
  "memory_groups ''0.5Gi'' = (''5'', ''Gi'')"
  "memory_groups ''1.5'' = (''5'', '''')"
  by (simp_all add: groups_eval memory_groups.simps)

section \<open>The quantity parser on the examples of the specification\<close>

text \<open>
  C1. The specification gives three values of the CPU parser: \<open>50m\<close> and \<open>0.05\<close> are both
  0.05, and \<open>1e3\<close> is 1000. \<open>CpuToNumber\<close> returns 0.05 (the binary64 number nearest to
  1/20) for \<open>50m\<close> and 1000 for \<open>1e3\<close>, but for \<open>0.05\<close> it returns 0 without an error:
  the first group of its pattern, \<^verbatim>\<open>(\d*e?\d*)\<close>, captures only the digits before the
  dot, and the unanchored pattern matches there. \<open>strconv.ParseFloat\<close> itself reads
  \<open>0.05\<close> as 0.05.
\<close>

theorem C1_cpu_fraction_is_cut:
  "CpuToNumber ''50m'' = Returns (round_to_f64 False 1 20, None) \<and>
   CpuToNumber ''1e3'' = Returns (f64_of_nat 1000, None) \<and>
   CpuToNumber ''0.05'' = Returns (Fin False 0 (- 1074), None) \<and>
   strconv_ParseFloat ''0.05'' = (round_to_f64 False 1 20, None) \<and>
   round_to_f64 False 1 20 \<noteq> Fin False 0 (- 1074)"
proof -
  have a: "CpuToNumber ''50m'' = Returns (round_to_f64 False 1 20, None)"
    by (simp add: CpuToNumber_scaled cpu_groups_examples multiplier_examples scaled_def
        ParseFloat_examples f64_of_nat_50 round_milli_Suc_0 mul_50_milli round_twentieth_Suc_0
        del: f64_mul.simps)
  have b: "CpuToNumber ''1e3'' = Returns (f64_of_nat 1000, None)"
    by (simp add: CpuToNumber_scaled cpu_groups_examples multiplier_examples scaled_def
        ParseFloat_1e3)
  have c: "CpuToNumber ''0.05'' = Returns (Fin False 0 (- 1074), None)"
    by (simp add: CpuToNumber_scaled cpu_groups_examples multiplier_examples scaled_def
        ParseFloat_examples)
  have d: "round_to_f64 False 1 20 \<noteq> Fin False 0 (- 1074)"
    by (simp add: round_twentieth_Suc_0)
  from a b c d strconv_ParseFloat_0_05 show ?thesis by blast
qed

text \<open>
  C3. The specification lets the parser fail on a text with trailing garbage, such
  as \<open>50x\<close> for the CPU family. \<open>CpuToNumber\<close> returns 50 for \<open>50x\<close> without an error,
  as it does for \<open>50\<close>: the pattern is not anchored, it matches the prefix \<open>50\<close>, and
  the text after the match is never looked at.
\<close>

theorem C3_trailing_text_is_accepted:
  "CpuToNumber ''50x'' = Returns (f64_of_nat 50, None) \<and>
   CpuToNumber ''50'' = Returns (f64_of_nat 50, None)"
  by (simp add: CpuToNumber_scaled cpu_groups_examples multiplier_examples scaled_def
      ParseFloat_examples)

text \<open>
  C4. The specification lets a number grouped by commas parse as the number without
  the commas. \<open>ParseFloat\<close> removes commas, but no comma reaches it: the first group
  of the patterns stops at the comma. For \<open>1,000\<close> the CPU parser returns 1 and the
  memory parser, whose first match is the text \<open>000\<close> at the end, returns 0; for
  \<open>1000\<close> both return 1000.
\<close>

theorem C4_comma_cuts_the_literal:
  "CpuToNumber ''1,000'' = Returns (f64_of_nat 1, None) \<and>
   CpuToNumber ''1000'' = Returns (f64_of_nat 1000, None) \<and>
   MemoryToNumber ''1,000'' = Returns (Fin False 0 (- 1074), None) \<and>
   MemoryToNumber ''1000'' = Returns (f64_of_nat 1000, None) \<and>
   f64_of_nat 1 \<noteq> f64_of_nat 1000 \<and> f64_of_nat 1000 \<noteq> Fin False 0 (- 1074)"
proof -
  have a: "CpuToNumber ''1,000'' = Returns (f64_of_nat 1, None)"
    by (simp add: CpuToNumber_scaled cpu_groups_examples multiplier_examples scaled_def
        ParseFloat_examples)
  have b: "CpuToNumber ''1000'' = Returns (f64_of_nat 1000, None)"
    by (simp add: CpuToNumber_scaled cpu_groups_examples multiplier_examples scaled_def
        ParseFloat_examples)
  have c: "MemoryToNumber ''1,000'' = Returns (Fin False 0 (- 1074), None)"
    by (simp add: MemoryToNumber_scaled memory_groups_examples multiplier_examples scaled_def
        ParseFloat_examples)
  have d: "MemoryToNumber ''1000'' = Returns (f64_of_nat 1000, None)"
    by (simp add: MemoryToNumber_scaled memory_groups_examples multiplier_examples scaled_def
        ParseFloat_examples)
  have e: "f64_of_nat 1 \<noteq> f64_of_nat 1000" "f64_of_nat 1000 \<noteq> Fin False 0 (- 1074)"
    by (simp_all add: f64_of_nat_Suc_0 f64_of_nat_1000)
  from a b c d e show ?thesis by blast
qed


section \<open>The two converters on every text\<close>

lemma strconv_ParseFloat_error:
  "strconv_ParseFloat s = (v, Some e) \<Longrightarrow> \<exists>k. e = NumError ''ParseFloat'' s k"
  by (auto simp: strconv_ParseFloat_def split: option.splits prod.splits if_splits float64.splits)

lemma strconv_ParseInt_error:
  "strconv_ParseInt s = (v, Some e) \<Longrightarrow> \<exists>k. e = NumError ''ParseInt'' s k"
  by (auto simp: strconv_ParseInt_def Let_def split: list.splits if_splits)

lemma ParseFloat_error:
  assumes "ParseFloat l = (v, Some e)"
  shows "\<exists>f n k. e = NumError f n k"
  using assms strconv_ParseFloat_error strconv_ParseInt_error
  unfolding ParseFloat_def Let_def
  by (fastforce split: prod.splits option.splits)

lemma scaled_cases:
  "scaled l k = Returns (v, Some err) \<Longrightarrow> v = f64_zero \<and> snd (ParseFloat l) = Some err"
  by (auto simp: scaled_def split: prod.splits option.splits)

lemma scaled_not_Panics: "scaled l k \<noteq> Panics"
  by (auto simp: scaled_def split: prod.splits option.splits)

lemma scaled_not_pattern_error: "scaled l k \<noteq> Returns (v, Some (pattern_error rp s))"
proof
  assume "scaled l k = Returns (v, Some (pattern_error rp s))"
  then have "snd (ParseFloat l) = Some (pattern_error rp s)"
    by (auto dest: scaled_cases)
  then obtain x where "ParseFloat l = (x, Some (pattern_error rp s))"
    by (cases "ParseFloat l") auto
  from ParseFloat_error [OF this] show False
    by (simp add: pattern_error_def)
qed

lemma takeWhile_digits_append:
  assumes "list_all is_digit d" and "u = [] \<or> \<not> is_digit (hd u)"
  shows "takeWhile is_digit (d @ u) = d" and "dropWhile is_digit (d @ u) = u"
proof -
  have "takeWhile is_digit u = []" "dropWhile is_digit u = u"
    using assms(2) by (cases u; auto)+
  with assms(1) show "takeWhile is_digit (d @ u) = d" "dropWhile is_digit (d @ u) = u"
    by (simp_all add: list_all_iff takeWhile_append2 dropWhile_append2)
qed

lemma lit_split_digits:
  assumes "list_all is_digit d" and "u = [] \<or> (\<not> is_digit (hd u) \<and> hd u \<noteq> CHR ''e'')"
  shows "lit_split (d @ u) = (d, u)"
proof -
  from assms have t: "takeWhile is_digit (d @ u) = d" "dropWhile is_digit (d @ u) = u"
    by (auto intro: takeWhile_digits_append)
  show ?thesis
    unfolding lit_split_def Let_def t using assms(2) by (cases u) auto
qed

lemma unit_table:
  "\<forall>(u, k) \<in> set memory_units.
     unit_prefix u = Some u \<and> \<not> is_digit (hd u) \<and> hd u \<noteq> CHR ''e'' \<and> u \<noteq> [] \<and>
     memory_multiplier u = Some (f64_of_nat k)"
  by (simp add: memory_units_def unit_prefix_def is_digit_def digits_def memory_multiplier_def)

lemma unit_facts:
  assumes "(u, k) \<in> set memory_units"
  shows "unit_prefix u = Some u" and "\<not> is_digit (hd u)" and "hd u \<noteq> CHR ''e''" and "u \<noteq> []"
    and "memory_multiplier u = Some (f64_of_nat k)"
  using assms unit_table by blast+

lemma memory_groups_digits:
  assumes "d \<noteq> []" and "list_all is_digit d" and "u = [] \<or> (\<exists>k. (u, k) \<in> set memory_units)"
  shows "memory_groups (d @ u) = (d, u)"
proof -
  from assms(3) have a: "u = [] \<or> (\<not> is_digit (hd u) \<and> hd u \<noteq> CHR ''e'')"
    using unit_facts(2,3) by blast
  from assms(3) have b: "unit_prefix u = Some u"
    using unit_facts(1) by (cases "u = []") (auto simp: unit_prefix_def)
  from assms(1) obtain c r where cr: "d @ u = c # r"
    by (cases d) auto
  have l: "lit_split (c # r) = (d, u)"
    using lit_split_digits [OF assms(2) a] cr by simp
  have "memory_groups (c # r) = (d, u)"
    by (simp add: memory_groups.simps l b)
  with cr show ?thesis by simp
qed

lemma ParseFloat_Nil: "ParseFloat [] = (f64_zero, Some (NumError ''ParseFloat'' [] ErrSyntax))"
  by (simp add: ParseFloat_def strconv_ParseFloat_def special_def readFloat_def)

lemma groups_Nil: "cpu_groups [] = ([], [])" "memory_groups [] = ([], [])"
  by (simp_all add: groups_eval memory_groups.simps)

lemma MemoryToNumber_digits_unit:
  assumes "d \<noteq> []" and "list_all is_digit d" and "(u, k) \<in> set memory_units"
  shows "MemoryToNumber (d @ u) =
     (case f64_of_nat (decimal d) of
        Inf sg \<Rightarrow> Returns (f64_zero, Some (NumError ''ParseFloat'' d ErrRange))
      | x \<Rightarrow> Returns (f64_mul x (f64_of_nat k), None))"
proof -
  have g: "memory_groups (d @ u) = (d, u)"
    using assms by (intro memory_groups_digits) auto
  show ?thesis
    by (simp add: MemoryToNumber_scaled g unit_facts(5) [OF assms(3)] scaled_def
        ParseFloat_digits [OF assms(1,2)] split: float64.splits)
qed

lemma MemoryToNumber_digits:
  assumes "d \<noteq> []" and "list_all is_digit d"
  shows "MemoryToNumber d =
     (case f64_of_nat (decimal d) of
        Inf sg \<Rightarrow> Returns (f64_zero, Some (NumError ''ParseFloat'' d ErrRange))
      | x \<Rightarrow> Returns (x, None))"
proof -
  have g: "memory_groups (d @ []) = (d, [])"
    using assms by (intro memory_groups_digits) auto
  show ?thesis
    using g
    by (simp add: MemoryToNumber_scaled memory_multiplier_Nil scaled_def
        ParseFloat_digits [OF assms(1,2)] split: float64.splits)
qed

lemma memory_examples:
  "MemoryToNumber ''1Gi'' = Returns (f64_of_nat 1073741824, None)"
  "MemoryToNumber ''100Mi'' = Returns (f64_of_nat 104857600, None)"
proof -
  show "MemoryToNumber ''1Gi'' = Returns (f64_of_nat 1073741824, None)"
    by (simp add: MemoryToNumber_scaled memory_groups_examples multiplier_examples scaled_def
        ParseFloat_examples f64_of_nat_Suc_0 f64_of_nat_1073741824 mul_1_Gi del: f64_mul.simps)
  show "MemoryToNumber ''100Mi'' = Returns (f64_of_nat 104857600, None)"
    by (simp add: MemoryToNumber_scaled memory_groups_examples multiplier_examples scaled_def
        ParseFloat_examples f64_of_nat_100 f64_of_nat_1048576 f64_of_nat_104857600 mul_100_Mi
        del: f64_mul.simps)
qed

text \<open>
  C9. The specification gives two values of the memory parser, \<open>1Gi\<close> is 1073741824
  and \<open>100Mi\<close> is 104857600, and lets it scale the literal of every input, which
  may be a plain decimal such as \<open>0.05\<close>, by the power of 1000 or of 1024 of its
  unit. \<open>MemoryToNumber\<close> returns the two values, and on a text of decimal digits
  followed by one of the twelve units, or by none, it returns the number of the
  digits scaled by the unit (\<open>MemoryToNumber_digits_unit\<close>, \<open>MemoryToNumber_digits\<close>).
  For \<open>0.5Gi\<close> it returns 5368709120 without an error, ten times the 536870912
  that 0.5 scaled by \<open>Gi\<close> is, and for \<open>1.5\<close> it returns 5: the first group
  \<^verbatim>\<open>(\d*e?\d*)\<close> has no dot and no unit follows the digit before the dot, so the
  leftmost match of the unanchored pattern starts after the dot.
  \<open>strconv.ParseFloat\<close> itself reads \<open>0.5\<close> as one half.
\<close>

theorem C9_memory_fraction_is_cut:
  "MemoryToNumber ''1Gi'' = Returns (f64_of_nat 1073741824, None) \<and>
   MemoryToNumber ''100Mi'' = Returns (f64_of_nat 104857600, None) \<and>
   MemoryToNumber ''0.5Gi'' = Returns (f64_of_nat 5368709120, None) \<and>
   MemoryToNumber ''1.5'' = Returns (f64_of_nat 5, None) \<and>
   strconv_ParseFloat ''0.5'' = (round_to_f64 False 1 2, None) \<and>
   f64_mul (round_to_f64 False 1 2) (f64_of_nat 1073741824) = f64_of_nat 536870912 \<and>
   f64_of_nat 536870912 \<noteq> f64_of_nat 5368709120"
proof -
  have a: "MemoryToNumber ''0.5Gi'' = Returns (f64_of_nat 5368709120, None)"
    by (simp add: MemoryToNumber_scaled memory_groups_fractions multiplier_examples scaled_def
        ParseFloat_5 f64_of_nat_5 f64_of_nat_1073741824 f64_of_nat_5368709120 mul_5_Gi
        del: f64_mul.simps)
  have b: "MemoryToNumber ''1.5'' = Returns (f64_of_nat 5, None)"
    by (simp add: MemoryToNumber_scaled memory_groups_fractions multiplier_examples scaled_def
        ParseFloat_5)
  have c: "f64_mul (round_to_f64 False 1 2) (f64_of_nat 1073741824) = f64_of_nat 536870912"
    by (simp add: round_half_Suc_0 f64_of_nat_1073741824 f64_of_nat_536870912 mul_half_Gi
        del: f64_mul.simps)
  have d: "f64_of_nat 536870912 \<noteq> f64_of_nat 5368709120"
    by (simp add: f64_of_nat_536870912 f64_of_nat_5368709120)
  from memory_examples a b c d strconv_ParseFloat_0_5 show ?thesis by blast
qed

text \<open>
  C10. \<open>CpuToNumber\<close> and \<open>MemoryToNumber\<close> return for every text and never panic.
  Both patterns match in every text (at the latest the empty text at its end), so
  \<open>FindAllStringSubmatch\<close> returns a list that is not empty, whose first element
  has three entries: the branch \<open>len(matches[0]) < 2\<close> is never taken. An error is
  returned only when \<open>ParseFloat\<close> fails on the text of the first group; it comes
  with the value zero and is never the error of the two branches that report a
  text outside the pattern.
\<close>

theorem C10_converters_never_panic:
  "FindAllStringSubmatch (regex cpuParser) s =
     [[fst (cpu_groups s) @ snd (cpu_groups s), fst (cpu_groups s), snd (cpu_groups s)]] \<and>
   FindAllStringSubmatch (regex memoryParser) s =
     [[fst (memory_groups s) @ snd (memory_groups s), fst (memory_groups s),
       snd (memory_groups s)]] \<and>
   CpuToNumber s = scaled (fst (cpu_groups s)) (cpu_multiplier (snd (cpu_groups s))) \<and>
   MemoryToNumber s =
     scaled (fst (memory_groups s)) (memory_multiplier (snd (memory_groups s))) \<and>
   CpuToNumber s \<noteq> Panics \<and> MemoryToNumber s \<noteq> Panics \<and>
   (\<forall>v err. CpuToNumber s = Returns (v, Some err) \<longrightarrow>
      v = f64_zero \<and> snd (ParseFloat (fst (cpu_groups s))) = Some err \<and>
      err \<noteq> pattern_error cpuParser s) \<and>
   (\<forall>v err. MemoryToNumber s = Returns (v, Some err) \<longrightarrow>
      v = f64_zero \<and> snd (ParseFloat (fst (memory_groups s))) = Some err \<and>
      err \<noteq> pattern_error memoryParser s)"
proof -
  let ?c = "scaled (fst (cpu_groups s)) (cpu_multiplier (snd (cpu_groups s)))"
  let ?m = "scaled (fst (memory_groups s)) (memory_multiplier (snd (memory_groups s)))"
  have c: "CpuToNumber s = ?c" by (rule CpuToNumber_scaled)
  have m: "MemoryToNumber s = ?m" by (rule MemoryToNumber_scaled)
  have cp: "CpuToNumber s \<noteq> Panics" unfolding c by (rule scaled_not_Panics)
  have mp: "MemoryToNumber s \<noteq> Panics" unfolding m by (rule scaled_not_Panics)
  have ce: "\<forall>v err. CpuToNumber s = Returns (v, Some err) \<longrightarrow>
      v = f64_zero \<and> snd (ParseFloat (fst (cpu_groups s))) = Some err \<and>
      err \<noteq> pattern_error cpuParser s"
    unfolding c using scaled_cases scaled_not_pattern_error by metis
  have me: "\<forall>v err. MemoryToNumber s = Returns (v, Some err) \<longrightarrow>
      v = f64_zero \<and> snd (ParseFloat (fst (memory_groups s))) = Some err \<and>
      err \<noteq> pattern_error memoryParser s"
    unfolding m using scaled_cases scaled_not_pattern_error by metis
  from find_cpu find_memory c m cp mp ce me show ?thesis
    by (intro conjI)
qed

theorem C10_witness:
  "CpuToNumber [] = Returns (f64_zero, Some (NumError ''ParseFloat'' [] ErrSyntax)) \<and>
   MemoryToNumber [] = Returns (f64_zero, Some (NumError ''ParseFloat'' [] ErrSyntax)) \<and>
   snd (ParseFloat (fst (cpu_groups []))) = Some (NumError ''ParseFloat'' [] ErrSyntax) \<and>
   snd (ParseFloat (fst (memory_groups []))) = Some (NumError ''ParseFloat'' [] ErrSyntax) \<and>
   NumError ''ParseFloat'' [] ErrSyntax \<noteq> pattern_error cpuParser [] \<and>
   NumError ''ParseFloat'' [] ErrSyntax \<noteq> pattern_error memoryParser []"
proof -
  note t = C10_converters_never_panic [of "[]"]
  note c3 = t [THEN conjunct2, THEN conjunct2, THEN conjunct1]
  note c4 = t [THEN conjunct2, THEN conjunct2, THEN conjunct2, THEN conjunct1]
  note c7 = t [THEN conjunct2, THEN conjunct2, THEN conjunct2, THEN conjunct2, THEN conjunct2,
    THEN conjunct2, THEN conjunct1, rule_format]
  note c8 = t [THEN conjunct2, THEN conjunct2, THEN conjunct2, THEN conjunct2, THEN conjunct2,
    THEN conjunct2, THEN conjunct2, rule_format]
  have c: "CpuToNumber [] = Returns (f64_zero, Some (NumError ''ParseFloat'' [] ErrSyntax))"
    using c3 by (simp add: groups_Nil scaled_def ParseFloat_Nil)
  have m: "MemoryToNumber [] = Returns (f64_zero, Some (NumError ''ParseFloat'' [] ErrSyntax))"
    using c4 by (simp add: groups_Nil scaled_def ParseFloat_Nil)
  from c7 [OF c] c8 [OF m] c m show ?thesis
    by simp
qed


section \<open>The format checkers\<close>

lemma ms_Seq_nonempty:
  "(ms (Seq a b) p r g \<noteq> []) = (\<exists>(p', r', g') \<in> set (ms a p r g). ms b p' r' g' \<noteq> [])"
  by (simp add: split_def del: ms.simps(3,4))

lemma ms_Plus_set:
  "((p', r', g') \<in> set (ms (Plus cls) p r g)) =
     (\<exists>k. 1 \<le> k \<and> k \<le> length (takeWhile (\<lambda>c. c \<in> set cls) r) \<and>
          p' = p + k \<and> r' = drop k r \<and> g' = g)"
  by (auto simp: less_Suc_eq_le)

lemma ms_Group_rest:
  "(\<exists>(p', r', g') \<in> set (ms (Group k a) p r g). Q r') =
   (\<exists>(p', r', g') \<in> set (ms a p r g). Q r')"
  by (force simp del: ms.simps(3,4))

lemma plus_then_iff:
  assumes "w = [] \<or> hd w \<notin> set cls"
  shows "(\<exists>k. 1 \<le> k \<and> k \<le> length (takeWhile (\<lambda>c. c \<in> set cls) s) \<and> drop k s = w) =
         class_plus_then cls w s"
proof
  let ?P = "\<lambda>c. c \<in> set cls"
  assume "\<exists>k. 1 \<le> k \<and> k \<le> length (takeWhile ?P s) \<and> drop k s = w"
  then obtain k where k: "1 \<le> k" "k \<le> length (takeWhile ?P s)" "drop k s = w" by blast
  have ks: "k \<le> length s"
    using k(2) length_takeWhile_le [of ?P s] by simp
  with k(3) have lw: "length w = length s - k" by auto
  with ks k(1) have a: "length w < length s" and b: "length s - length w = k" by simp_all
  have "take k s = take k (takeWhile ?P s)"
    using k(2) by (metis append_eq_conv_conj takeWhile_dropWhile_id take_append take_all_iff
        diff_is_0_eq' take0 append_Nil2 min.absorb2 take_take)
  then have "set (take k s) \<subseteq> set (takeWhile ?P s)"
    by (metis set_take_subset)
  then have "list_all ?P (take k s)"
    by (auto simp: list_all_iff dest: set_takeWhileD)
  with a b k(3) show "class_plus_then cls w s"
    by (simp add: class_plus_then_def)
next
  let ?P = "\<lambda>c. c \<in> set cls"
  assume c: "class_plus_then cls w s"
  let ?k = "length s - length w"
  from c have a: "length w < length s" and d: "drop ?k s = w" and l: "list_all ?P (take ?k s)"
    by (simp_all add: class_plus_then_def)
  have s: "s = take ?k s @ w" using d by (metis append_take_drop_id)
  have "takeWhile ?P w = []" using assms by (cases w) auto
  then have "takeWhile ?P (take ?k s @ w) = take ?k s"
    using l by (simp add: list_all_iff takeWhile_append2)
  with s have "takeWhile ?P s = take ?k s" by simp
  then have "length (takeWhile ?P s) = ?k" using a by simp
  with a d show "\<exists>k. 1 \<le> k \<and> k \<le> length (takeWhile ?P s) \<and> drop k s = w"
    by (intro exI [of _ ?k]) simp
qed

lemma ms_Plus_rest:
  "(\<exists>(p', r', g') \<in> set (ms (Plus cls) p s g). r' = w) =
   (\<exists>k. 1 \<le> k \<and> k \<le> length (takeWhile (\<lambda>c. c \<in> set cls) s) \<and> drop k s = w)"
proof
  assume "\<exists>(p', r', g') \<in> set (ms (Plus cls) p s g). r' = w"
  then obtain p' g' where "(p', w, g') \<in> set (ms (Plus cls) p s g)"
    by blast
  then show "\<exists>k. 1 \<le> k \<and> k \<le> length (takeWhile (\<lambda>c. c \<in> set cls) s) \<and> drop k s = w"
    unfolding ms_Plus_set by blast
next
  assume "\<exists>k. 1 \<le> k \<and> k \<le> length (takeWhile (\<lambda>c. c \<in> set cls) s) \<and> drop k s = w"
  then obtain k where k: "1 \<le> k" "k \<le> length (takeWhile (\<lambda>c. c \<in> set cls) s)" "drop k s = w"
    by blast
  then have "(p + k, w, g) \<in> set (ms (Plus cls) p s g)"
    unfolding ms_Plus_set by blast
  then show "\<exists>(p', r', g') \<in> set (ms (Plus cls) p s g). r' = w"
    by blast
qed

lemma ms_Plus_then:
  assumes t: "\<And>p r g. (ms T p r g \<noteq> []) = (r = w)" and w: "w = [] \<or> hd w \<notin> set cls"
  shows "(ms (Seq (Plus cls) T) p s g \<noteq> []) = class_plus_then cls w s"
  unfolding ms_Seq_nonempty plus_then_iff [OF w, symmetric] t
  by (rule ms_Plus_rest)

lemma ms_Group_Plus_then:
  assumes t: "\<And>p r g. (ms T p r g \<noteq> []) = (r = w)" and w: "w = [] \<or> hd w \<notin> set cls"
  shows "(ms (Seq (Group n (Plus cls)) T) p s g \<noteq> []) = class_plus_then cls w s"
  unfolding ms_Seq_nonempty plus_then_iff [OF w, symmetric] t ms_Group_rest
  by (rule ms_Plus_rest)

lemma search_Bot:
  "0 < p \<Longrightarrow> search (Seq Bot X) p r = None"
  by (induction r arbitrary: p) simp_all

lemma MatchString_Bot:
  "MatchString (Seq Bot X) s = (ms X 0 s [] \<noteq> [])"
proof -
  have a: "search (Seq Bot X) 0 s =
      (case ms (Seq Bot X) 0 s [] of
         st # _ \<Rightarrow> Some (0, s, st)
       | [] \<Rightarrow> (case s of [] \<Rightarrow> None | _ # r' \<Rightarrow> search (Seq Bot X) (Suc 0) r'))"
    by (rule search.simps)
  have b: "ms (Seq Bot X) 0 s [] = ms X 0 s []"
    by simp
  have c: "(case s of [] \<Rightarrow> None | _ # r' \<Rightarrow> search (Seq Bot X) (Suc 0) r') = None"
    by (cases s) (simp_all add: search_Bot del: search.simps)
  show ?thesis
    unfolding MatchString_def a b c by (cases "ms X 0 s []") simp_all
qed

lemma tails:
  "(ms Eot p r g \<noteq> []) = (r = [])"
  "(ms (Seq (Lit c) Eot) p r g \<noteq> []) = (r = [c])"
  "(ms (Seq (Lit c) (Seq (Lit i) Eot)) p r g \<noteq> []) = (r = [c, i])"
proof -
  show "(ms Eot p r g \<noteq> []) = (r = [])" by simp
  show "(ms (Seq (Lit c) Eot) p r g \<noteq> []) = (r = [c])"
    by (cases r) auto
  show "(ms (Seq (Lit c) (Seq (Lit i) Eot)) p r g \<noteq> []) = (r = [c, i])"
    by (cases r; cases "tl r") auto
qed

lemma MatchString_checkers:
  "MatchString CpuUnitChecker s = class_plus_then digit_dot ''m'' s"
  "MatchString NoCpuUnitChecker s = class_plus_then digit_dot [] s"
proof -
  show "MatchString CpuUnitChecker s = class_plus_then digit_dot ''m'' s"
    unfolding CpuUnitChecker_def MatchString_Bot
    by (rule ms_Group_Plus_then) (simp_all add: tails digit_dot_def del: ms.simps)
  show "MatchString NoCpuUnitChecker s = class_plus_then digit_dot [] s"
    unfolding NoCpuUnitChecker_def MatchString_Bot
    by (rule ms_Group_Plus_then) (simp_all add: tails del: ms.simps)
qed

lemma MatchString_unit_checker:
  assumes "c \<notin> set digits"
  shows "MatchString (unit_checker c) s = class_plus_then digits [c, CHR ''i''] s"
  unfolding unit_checker_def MatchString_Bot
  by (rule ms_Plus_then) (simp_all add: tails assms del: ms.simps)

lemma MatchString_memory_checkers:
  "MatchString MiChecker s = class_plus_then digits ''Mi'' s"
  "MatchString GiChecker s = class_plus_then digits ''Gi'' s"
  "MatchString TiChecker s = class_plus_then digits ''Ti'' s"
  "MatchString PiChecker s = class_plus_then digits ''Pi'' s"
  "MatchString KiChecker s = class_plus_then digits ''Ki'' s"
  unfolding MiChecker_def GiChecker_def TiChecker_def PiChecker_def KiChecker_def
  by (simp_all add: MatchString_unit_checker digits_def)

text \<open>
  C8. \<open>CpuChecker.IsFormat\<close> holds of a string exactly when it matches
  \<^verbatim>\<open>^[0-9.]+m$\<close> or \<^verbatim>\<open>^[0-9.]+$\<close>, that is when it is one or more digits and dots,
  followed by \<open>m\<close> or by nothing; \<open>MemoryChecker.IsFormat\<close> holds of a string exactly
  when it matches \<^verbatim>\<open>^[0-9]+(Ki|Mi|Gi|Ti|Pi)$\<close>, that is when it is one or more digits
  followed by one of the five units. Both hold of every value that is not a string.
\<close>

theorem C8_format_checkers:
  "CpuChecker_IsFormat (JString s) =
     (class_plus_then digit_dot ''m'' s \<or> class_plus_then digit_dot [] s) \<and>
   MemoryChecker_IsFormat (JString s) =
     list_ex (\<lambda>u. class_plus_then digits u s) [''Ki'', ''Mi'', ''Gi'', ''Ti'', ''Pi''] \<and>
   (\<not> is_string j \<longrightarrow> CpuChecker_IsFormat j \<and> MemoryChecker_IsFormat j)"
proof -
  have a: "CpuChecker_IsFormat (JString s) =
     (class_plus_then digit_dot ''m'' s \<or> class_plus_then digit_dot [] s)"
    by (simp add: CpuChecker_IsFormat_def MatchString_checkers)
  have b: "MemoryChecker_IsFormat (JString s) =
     list_ex (\<lambda>u. class_plus_then digits u s) [''Ki'', ''Mi'', ''Gi'', ''Ti'', ''Pi'']"
    by (auto simp: MemoryChecker_IsFormat_def MatchString_memory_checkers)
  have c: "\<not> is_string j \<longrightarrow> CpuChecker_IsFormat j \<and> MemoryChecker_IsFormat j"
    by (cases j) (simp_all add: is_string_def CpuChecker_IsFormat_def MemoryChecker_IsFormat_def)
  from a b c show ?thesis by (intro conjI)
qed

theorem C8_witness:
  "\<not> is_string (JNumber 5) \<and> CpuChecker_IsFormat (JNumber 5) \<and>
   MemoryChecker_IsFormat (JNumber 5) \<and>
   CpuChecker_IsFormat (JString ''50m'') \<and> CpuChecker_IsFormat (JString ''0.05'') \<and>
   \<not> CpuChecker_IsFormat (JString ''50x'') \<and>
   MemoryChecker_IsFormat (JString ''100Mi'') \<and> \<not> MemoryChecker_IsFormat (JString ''1.5Gi'') \<and>
   \<not> MemoryChecker_IsFormat (JString ''1000'')"
proof -
  have n: "\<not> is_string (JNumber 5)"
    by (simp add: is_string_def)
  note c = C8_format_checkers [THEN conjunct1]
  note m = C8_format_checkers [THEN conjunct2, THEN conjunct1]
  note o = C8_format_checkers [THEN conjunct2, THEN conjunct2, rule_format, OF n]
  have "CpuChecker_IsFormat (JString ''50m'')" "CpuChecker_IsFormat (JString ''0.05'')"
    "\<not> CpuChecker_IsFormat (JString ''50x'')"
    unfolding c by (simp_all add: class_plus_then_def digit_dot_def)
  moreover have "MemoryChecker_IsFormat (JString ''100Mi'')"
    "\<not> MemoryChecker_IsFormat (JString ''1.5Gi'')" "\<not> MemoryChecker_IsFormat (JString ''1000'')"
    unfolding m by (simp_all add: class_plus_then_def digits_def)
  ultimately show ?thesis using n o by simp
qed


section \<open>The checks of the resource fields\<close>

lemma lookup_path_snoc:
  "(lookup_path x (ks @ [k]) = Some v) =
   (\<exists>m. lookup_path x ks = Some (JObject m) \<and> map_of m k = Some v)"
proof (induction ks arbitrary: x)
  case Nil
  show ?case by (cases x) (auto split: option.splits)
next
  case (Cons a ks)
  show ?case by (cases x) (auto simp: Cons.IH split: option.splits)
qed

lemma lookup_path_snoc_None:
  assumes "lookup_path x ks = Some (JObject m)"
  shows "(lookup_path x (ks @ [k]) = None) = (map_of m k = None)"
  using assms lookup_path_snoc [of x ks k]
  by (metis not_Some_eq option.inject json.inject(5))

lemma index_simps:
  "map_of m k = Some v \<Longrightarrow> index m k = (v, True)"
  "map_of m k = None \<Longrightarrow> index m k = (JNull, False)"
  by (simp_all add: index_def)

lemma assert_index_object: "assert_index (JObject m) k = Some (index m k)"
  by (simp add: assert_index_def assert_map_def)

lemma resources_block:
  assumes "lookup_path (JObject dat) [''resources'', a] = Some (JObject m)"
  shows "assert_index (fst (index dat ''resources'')) a = Some (JObject m, True)"
    and "resources_field dat a b = Some (index m b)"
proof -
  from assms obtain r where r: "map_of dat ''resources'' = Some (JObject r)" "map_of r a = Some (JObject m)"
    using lookup_path_snoc [of "JObject dat" "[''resources'']" a "JObject m"]
      lookup_path_snoc [of "JObject dat" "[]" "''resources''"]
    by auto
  then show "assert_index (fst (index dat ''resources'')) a = Some (JObject m, True)"
    by (simp add: index_simps assert_index_object)
  then show "resources_field dat a b = Some (index m b)"
    by (simp add: resources_field_def assert_index_object)
qed

lemma envoyproxy_block:
  assumes "lookup_path (JObject dat) [''envoyproxy'', ''resources'', a] = Some (JObject m)"
  shows "Option.bind (assert_index (fst (index dat ''envoyproxy'')) ''resources'')
           (\<lambda>(x, _). assert_index x a) = Some (JObject m, True)"
    and "envoyproxy_field dat a b = Some (index m b)"
proof -
  from assms obtain r where r: "lookup_path (JObject dat) [''envoyproxy'', ''resources''] = Some (JObject r)"
      "map_of r a = Some (JObject m)"
    using lookup_path_snoc [of "JObject dat" "[''envoyproxy'', ''resources'']" a "JObject m"]
    by auto
  then obtain e where e: "map_of dat ''envoyproxy'' = Some (JObject e)" "map_of e ''resources'' = Some (JObject r)"
    using lookup_path_snoc [of "JObject dat" "[''envoyproxy'']" "''resources''" "JObject r"]
      lookup_path_snoc [of "JObject dat" "[]" "''envoyproxy''"]
    by auto
  with r show "Option.bind (assert_index (fst (index dat ''envoyproxy'')) ''resources'')
           (\<lambda>(x, _). assert_index x a) = Some (JObject m, True)"
    by (simp add: index_simps assert_index_object)
  then show "envoyproxy_field dat a b = Some (index m b)"
    using e r by (simp add: envoyproxy_field_def assert_index_object index_simps)
qed

lemma require_simps:
  "require (Some (v, True)) msg k = k v"
  "require (Some (v, False)) msg k = Returns (False, Some (ErrorString msg))"
  by (simp_all add: require_def)

lemma require_map_object: "require_map (Some (JObject m, ok)) msg k = k m"
  by (simp add: require_map_def)

lemma to_number_string:
  "to_number CpuToNumber (JString s) k = k (number_of (CpuToNumber s))"
  "to_number MemoryToNumber (JString s) k = k (number_of (MemoryToNumber s))"
proof -
  show "to_number CpuToNumber (JString s) k = k (number_of (CpuToNumber s))"
    using scaled_not_Panics [of "fst (cpu_groups s)" "cpu_multiplier (snd (cpu_groups s))"]
    by (cases "CpuToNumber s") (auto simp: to_number_def number_of_def CpuToNumber_scaled)
  show "to_number MemoryToNumber (JString s) k = k (number_of (MemoryToNumber s))"
    using scaled_not_Panics [of "fst (memory_groups s)" "memory_multiplier (snd (memory_groups s))"]
    by (cases "MemoryToNumber s") (auto simp: to_number_def number_of_def MemoryToNumber_scaled)
qed

lemma compare_limits_strings:
  "compare_limits (JString cl) (JString ml) (JString cr) (JString mr)
     (JString ecl) (JString eml) (JString ecr) (JString emr) k =
   (if below CpuToNumber ecl ecr \<or> below MemoryToNumber eml emr \<or>
       below CpuToNumber cl cr \<or> below MemoryToNumber ml mr
    then Returns (False, Some (ErrorString ''requests is greater than limits''))
    else k)"
  by (simp add: compare_limits_def to_number_string below_def)

lemma f64_less_irrefl: "\<not> f64_less x x"
  by (cases x) simp_all

lemma below_irrefl: "\<not> below f s s"
  by (simp add: below_def f64_less_irrefl)

lemma DeploymentTemplateValidate_autoscaling:
  assumes "autoscaling_checked io templatejson schemafile dat"
  shows "DeploymentTemplateValidate io templatejson schemafile = autoscale_branch dat"
proof -
  from assms have st: "Stat io (schema_path schemafile) = None"
    and ma: "Marshal io templatejson = Inr (JObject dat)"
    and en: "lookup_path (JObject dat) [''autoscaling'', ''enabled''] = Some (JBool True)"
    by (simp_all add: autoscaling_checked_def)
  from assms obtain result where
    va: "Validate io (schemajson io (schema_path schemafile)) templatejson = Inr result"
    and ok: "Valid result"
    by (auto simp: autoscaling_checked_def split: sum.splits)
  from en obtain a where a: "map_of dat ''autoscaling'' = Some (JObject a)"
      "map_of a ''enabled'' = Some (JBool True)"
    using lookup_path_snoc [of "JObject dat" "[''autoscaling'']" "''enabled''" "JBool True"]
      lookup_path_snoc [of "JObject dat" "[]" "''autoscaling''"]
    by auto
  then have "assert_index (fst (index dat ''autoscaling'')) ''enabled'' = Some (JBool True, True)"
    by (simp add: index_simps assert_index_object)
  then show ?thesis
    by (simp add: DeploymentTemplateValidate_def st ma va ok Unmarshal_map_def)
qed

lemma is_object_the:
  "is_object x \<Longrightarrow> x = Some (JObject (the_object x))"
  by (auto simp: is_object_def the_object_def split: option.splits json.splits)

lemma index_the_object:
  assumes "is_object (lookup_path x ks)"
  shows "lookup_path x (ks @ [k]) \<noteq> None \<Longrightarrow>
           index (the_object (lookup_path x ks)) k = (the (lookup_path x (ks @ [k])), True)"
    and "lookup_path x (ks @ [k]) = None \<Longrightarrow>
           index (the_object (lookup_path x ks)) k = (JNull, False)"
proof -
  let ?m = "the_object (lookup_path x ks)"
  from is_object_the [OF assms] have o: "lookup_path x ks = Some (JObject ?m)" .
  {
    assume "lookup_path x (ks @ [k]) \<noteq> None"
    then obtain v where v: "lookup_path x (ks @ [k]) = Some v" by blast
    then obtain m where "lookup_path x ks = Some (JObject m)" "map_of m k = Some v"
      unfolding lookup_path_snoc by blast
    with o have "map_of ?m k = Some v" by simp
    with v show "index ?m k = (the (lookup_path x (ks @ [k])), True)"
      by (simp add: index_simps)
  }
  {
    assume "lookup_path x (ks @ [k]) = None"
    with lookup_path_snoc_None [OF o, of k] show "index ?m k = (JNull, False)"
      by (simp add: index_simps)
  }
qed

lemma present_is_object:
  "lookup_path x (ks @ [k]) \<noteq> None \<Longrightarrow> is_object (lookup_path x ks)"
  using lookup_path_snoc [of x ks k] by (auto simp: is_object_def simp del: lookup_path.simps)

lemma resources_field_eq:
  assumes "is_object (lookup_path (JObject dat) [''resources'', a])"
  shows "resources_field dat a b = Some (index (the_object (lookup_path (JObject dat) [''resources'', a])) b)"
  using resources_block(2) [OF is_object_the [OF assms]] .

lemma envoyproxy_field_eq:
  assumes "is_object (lookup_path (JObject dat) [''envoyproxy'', ''resources'', a])"
  shows "envoyproxy_field dat a b =
    Some (index (the_object (lookup_path (JObject dat) [''envoyproxy'', ''resources'', a])) b)"
  using envoyproxy_block(2) [OF is_object_the [OF assms]] .

lemma resources_field_present:
  assumes "lookup_path (JObject dat) [''resources'', a, b] \<noteq> None"
  shows "resources_field dat a b = Some (the (lookup_path (JObject dat) [''resources'', a, b]), True)"
proof -
  from assms have o: "is_object (lookup_path (JObject dat) [''resources'', a])"
    using present_is_object [of "JObject dat" "[''resources'', a]" b] by simp
  from index_the_object(1) [OF o, of b] assms show ?thesis
    by (simp add: resources_field_eq [OF o])
qed

lemma resources_field_absent:
  assumes "is_object (lookup_path (JObject dat) [''resources'', a])"
    and "lookup_path (JObject dat) [''resources'', a, b] = None"
  shows "resources_field dat a b = Some (JNull, False)"
  using index_the_object(2) [OF assms(1), of b] assms(2)
  by (simp add: resources_field_eq [OF assms(1)])

lemma envoyproxy_field_present:
  assumes "lookup_path (JObject dat) [''envoyproxy'', ''resources'', a, b] \<noteq> None"
  shows "envoyproxy_field dat a b =
    Some (the (lookup_path (JObject dat) [''envoyproxy'', ''resources'', a, b]), True)"
proof -
  from assms have o: "is_object (lookup_path (JObject dat) [''envoyproxy'', ''resources'', a])"
    using present_is_object [of "JObject dat" "[''envoyproxy'', ''resources'', a]" b] by simp
  from index_the_object(1) [OF o, of b] assms show ?thesis
    by (simp add: envoyproxy_field_eq [OF o])
qed

lemma envoyproxy_field_absent:
  assumes "is_object (lookup_path (JObject dat) [''envoyproxy'', ''resources'', a])"
    and "lookup_path (JObject dat) [''envoyproxy'', ''resources'', a, b] = None"
  shows "envoyproxy_field dat a b = Some (JNull, False)"
  using index_the_object(2) [OF assms(1), of b] assms(2)
  by (simp add: envoyproxy_field_eq [OF assms(1)])

lemma first_absent_consider:
  assumes "first_absent dat = Some (path, msg)"
  obtains
    (cl) "lookup_path (JObject dat) [''resources'', ''limits'', ''cpu''] = None"
      "path = [''resources'', ''limits'', ''cpu'']"
      "msg = ''CPU limit is required''"
  | (ml) "lookup_path (JObject dat) [''resources'', ''limits'', ''cpu''] \<noteq> None"
      "lookup_path (JObject dat) [''resources'', ''limits'', ''memory''] = None"
      "path = [''resources'', ''limits'', ''memory'']"
      "msg = ''Memory limit is required''"
  | (cr) "lookup_path (JObject dat) [''resources'', ''limits'', ''cpu''] \<noteq> None"
      "lookup_path (JObject dat) [''resources'', ''limits'', ''memory''] \<noteq> None"
      "lookup_path (JObject dat) [''resources'', ''requests'', ''cpu''] = None"
      "path = [''resources'', ''requests'', ''cpu'']"
      "msg = ''CPU requests is required''"
  | (mr) "lookup_path (JObject dat) [''resources'', ''limits'', ''cpu''] \<noteq> None"
      "lookup_path (JObject dat) [''resources'', ''limits'', ''memory''] \<noteq> None"
      "lookup_path (JObject dat) [''resources'', ''requests'', ''cpu''] \<noteq> None"
      "lookup_path (JObject dat) [''resources'', ''requests'', ''memory''] = None"
      "path = [''resources'', ''requests'', ''memory'']"
      "msg = ''Memory requests is required''"
  | (ecl) "lookup_path (JObject dat) [''resources'', ''limits'', ''cpu''] \<noteq> None"
      "lookup_path (JObject dat) [''resources'', ''limits'', ''memory''] \<noteq> None"
      "lookup_path (JObject dat) [''resources'', ''requests'', ''cpu''] \<noteq> None"
      "lookup_path (JObject dat) [''resources'', ''requests'', ''memory''] \<noteq> None"
      "lookup_path (JObject dat) [''envoyproxy'', ''resources'', ''limits'', ''cpu''] = None"
      "path = [''envoyproxy'', ''resources'', ''limits'', ''cpu'']"
      "msg = ''Envoproxy CPU limit is required''"
  | (eml) "lookup_path (JObject dat) [''resources'', ''limits'', ''cpu''] \<noteq> None"
      "lookup_path (JObject dat) [''resources'', ''limits'', ''memory''] \<noteq> None"
      "lookup_path (JObject dat) [''resources'', ''requests'', ''cpu''] \<noteq> None"
      "lookup_path (JObject dat) [''resources'', ''requests'', ''memory''] \<noteq> None"
      "lookup_path (JObject dat) [''envoyproxy'', ''resources'', ''limits'', ''cpu''] \<noteq> None"
      "lookup_path (JObject dat) [''envoyproxy'', ''resources'', ''limits'', ''memory''] = None"
      "path = [''envoyproxy'', ''resources'', ''limits'', ''memory'']"
      "msg = ''Envoproxy Memory limit is required''"
  | (ecr) "lookup_path (JObject dat) [''resources'', ''limits'', ''cpu''] \<noteq> None"
      "lookup_path (JObject dat) [''resources'', ''limits'', ''memory''] \<noteq> None"
      "lookup_path (JObject dat) [''resources'', ''requests'', ''cpu''] \<noteq> None"
      "lookup_path (JObject dat) [''resources'', ''requests'', ''memory''] \<noteq> None"
      "lookup_path (JObject dat) [''envoyproxy'', ''resources'', ''limits'', ''cpu''] \<noteq> None"
      "lookup_path (JObject dat) [''envoyproxy'', ''resources'', ''limits'', ''memory''] \<noteq> None"
      "lookup_path (JObject dat) [''envoyproxy'', ''resources'', ''requests'', ''cpu''] = None"
      "path = [''envoyproxy'', ''resources'', ''requests'', ''cpu'']"
      "msg = ''Envoproxy CPU requests is required''"
  | (emr) "lookup_path (JObject dat) [''resources'', ''limits'', ''cpu''] \<noteq> None"
      "lookup_path (JObject dat) [''resources'', ''limits'', ''memory''] \<noteq> None"
      "lookup_path (JObject dat) [''resources'', ''requests'', ''cpu''] \<noteq> None"
      "lookup_path (JObject dat) [''resources'', ''requests'', ''memory''] \<noteq> None"
      "lookup_path (JObject dat) [''envoyproxy'', ''resources'', ''limits'', ''cpu''] \<noteq> None"
      "lookup_path (JObject dat) [''envoyproxy'', ''resources'', ''limits'', ''memory''] \<noteq> None"
      "lookup_path (JObject dat) [''envoyproxy'', ''resources'', ''requests'', ''cpu''] \<noteq> None"
      "lookup_path (JObject dat) [''envoyproxy'', ''resources'', ''requests'', ''memory''] = None"
      "path = [''envoyproxy'', ''resources'', ''requests'', ''memory'']"
      "msg = ''Envoproxy memory requests is required''"
  using assms
  by (simp add: first_absent_def required_fields_def del: lookup_path.simps split: if_splits)

lemma autoscale_branch_first_absent:
  assumes "first_absent dat = Some (path, msg)"
    and obj: "is_object (lookup_path (JObject dat) (butlast path))"
  shows "autoscale_branch dat = Returns (False, Some (ErrorString msg))"
proof -
  let ?L = "lookup_path (JObject dat)"
  from assms(1) show ?thesis
  proof (cases rule: first_absent_consider)
    case cl
    from obj have o: "is_object (?L [''resources'', ''limits''])"
      by (simp add: cl(2) del: lookup_path.simps)
    show ?thesis
      by (simp add: autoscale_branch_def require_simps cl o resources_field_present
          resources_field_absent envoyproxy_field_present envoyproxy_field_absent
          del: lookup_path.simps)
  next
    case ml
    from obj have o: "is_object (?L [''resources'', ''limits''])"
      by (simp add: ml(3) del: lookup_path.simps)
    show ?thesis
      by (simp add: autoscale_branch_def require_simps ml o resources_field_present
          resources_field_absent envoyproxy_field_present envoyproxy_field_absent
          del: lookup_path.simps)
  next
    case cr
    from obj have o: "is_object (?L [''resources'', ''requests''])"
      by (simp add: cr(4) del: lookup_path.simps)
    show ?thesis
      by (simp add: autoscale_branch_def require_simps cr o resources_field_present
          resources_field_absent envoyproxy_field_present envoyproxy_field_absent
          del: lookup_path.simps)
  next
    case mr
    from obj have o: "is_object (?L [''resources'', ''requests''])"
      by (simp add: mr(5) del: lookup_path.simps)
    show ?thesis
      by (simp add: autoscale_branch_def require_simps mr o resources_field_present
          resources_field_absent envoyproxy_field_present envoyproxy_field_absent
          del: lookup_path.simps)
  next
    case ecl
    from obj have o: "is_object (?L [''envoyproxy'', ''resources'', ''limits''])"
      by (simp add: ecl(6) del: lookup_path.simps)
    show ?thesis
      by (simp add: autoscale_branch_def require_simps ecl o resources_field_present
          resources_field_absent envoyproxy_field_present envoyproxy_field_absent
          del: lookup_path.simps)
  next
    case eml
    from obj have o: "is_object (?L [''envoyproxy'', ''resources'', ''limits''])"
      by (simp add: eml(7) del: lookup_path.simps)
    show ?thesis
      by (simp add: autoscale_branch_def require_simps eml o resources_field_present
          resources_field_absent envoyproxy_field_present envoyproxy_field_absent
          del: lookup_path.simps)
  next
    case ecr
    from obj have o: "is_object (?L [''envoyproxy'', ''resources'', ''requests''])"
      by (simp add: ecr(8) del: lookup_path.simps)
    show ?thesis
      by (simp add: autoscale_branch_def require_simps ecr o resources_field_present
          resources_field_absent envoyproxy_field_present envoyproxy_field_absent
          del: lookup_path.simps)
  next
    case emr
    from obj have o: "is_object (?L [''envoyproxy'', ''resources'', ''requests''])"
      by (simp add: emr(9) del: lookup_path.simps)
    show ?thesis
      by (simp add: autoscale_branch_def require_simps emr o resources_field_present
          resources_field_absent envoyproxy_field_present envoyproxy_field_absent
          del: lookup_path.simps)
  qed
qed

lemma require_map_resources:
  assumes "is_object (lookup_path (JObject dat) [''resources'', a])"
  shows "require_map (assert_index (fst (index dat ''resources'')) a) msg k =
           k (the_object (lookup_path (JObject dat) [''resources'', a]))"
  using resources_block(1) [OF is_object_the [OF assms]]
  by (simp add: require_map_object del: lookup_path.simps)

lemma require_map_envoyproxy:
  assumes "is_object (lookup_path (JObject dat) [''envoyproxy'', ''resources'', a])"
  shows "require_map
           (Option.bind (assert_index (fst (index dat ''envoyproxy'')) ''resources'')
              (\<lambda>(x, _). assert_index x a)) msg k =
           k (the_object (lookup_path (JObject dat) [''envoyproxy'', ''resources'', a]))"
  using envoyproxy_block(1) [OF is_object_the [OF assms]]
  by (simp add: require_map_object del: lookup_path.simps)

lemma blocks_objects:
  assumes "list_all (\<lambda>b. is_object (lookup_path (JObject dat) b)) resource_blocks"
  shows "is_object (lookup_path (JObject dat) [''resources'', ''limits''])"
    and "is_object (lookup_path (JObject dat) [''resources'', ''requests''])"
    and "is_object (lookup_path (JObject dat) [''envoyproxy'', ''resources'', ''limits''])"
    and "is_object (lookup_path (JObject dat) [''envoyproxy'', ''resources'', ''requests''])"
  using assms by (simp_all add: resource_blocks_def del: lookup_path.simps)

lemma Autoscale_blocks:
  assumes "list_all (\<lambda>b. is_object (lookup_path (JObject dat) b)) resource_blocks"
  shows "Autoscale dat =
     (let limit = the_object (lookup_path (JObject dat) [''resources'', ''limits'']);
          request = the_object (lookup_path (JObject dat) [''resources'', ''requests'']);
          envoproxyLimit =
            the_object (lookup_path (JObject dat) [''envoyproxy'', ''resources'', ''limits'']);
          envoproxyMemory =
            the_object (lookup_path (JObject dat) [''envoyproxy'', ''resources'', ''requests''])
      in
     require (Some (index limit ''cpu'')) ''CPU limit is required'' (\<lambda>checkCPUlimit.
     require (Some (index limit ''memory'')) ''Memory limit is required'' (\<lambda>checkMemorylimit.
     require (Some (index request ''cpu'')) ''CPU requests is required'' (\<lambda>checkCPURequests.
     require (Some (index request ''memory'')) ''Memory requests is required'' (\<lambda>checkMemoryRequests.
     require (Some (index envoproxyLimit ''cpu'')) ''Envoproxy CPU limit is required''
       (\<lambda>checkEnvoproxyCPUlimit.
     require (Some (index envoproxyLimit ''memory'')) ''Envoproxy Memory limit is required''
       (\<lambda>checkEnvoproxyMemorylimit.
     require (Some (index envoproxyMemory ''cpu'')) ''Envoproxy CPU requests is required''
       (\<lambda>checkEnvoproxyCPURequests.
     require (Some (index envoproxyMemory ''memory'')) ''Envoproxy memory requests is required''
       (\<lambda>checkEnvoproxyMemoryRequests.
     compare_limits checkCPUlimit checkMemorylimit checkCPURequests checkMemoryRequests
       checkEnvoproxyCPUlimit checkEnvoproxyMemorylimit checkEnvoproxyCPURequests
       checkEnvoproxyMemoryRequests (Returns (True, None)))))))))))"
  unfolding Autoscale_def Let_def
  by (simp only: require_map_resources [OF blocks_objects(1) [OF assms]]
      require_map_resources [OF blocks_objects(2) [OF assms]]
      require_map_envoyproxy [OF blocks_objects(3) [OF assms]]
      require_map_envoyproxy [OF blocks_objects(4) [OF assms]])

lemma Autoscale_first_absent:
  assumes "first_absent dat = Some (path, msg)"
    and blocks: "list_all (\<lambda>b. is_object (lookup_path (JObject dat) b)) resource_blocks"
  shows "Autoscale dat = Returns (False, Some (ErrorString msg))"
proof -
  note b1 = blocks_objects(1) [OF blocks] and b2 = blocks_objects(2) [OF blocks]
    and b3 = blocks_objects(3) [OF blocks] and b4 = blocks_objects(4) [OF blocks]
  from assms(1) show ?thesis
  proof (cases rule: first_absent_consider)
    case cl
    then show ?thesis
      unfolding Autoscale_blocks [OF blocks]
      by (simp add: Let_def require_simps index_the_object [OF b1, unfolded append.simps]
          index_the_object [OF b2, unfolded append.simps] index_the_object [OF b3, unfolded append.simps]
          index_the_object [OF b4, unfolded append.simps] del: lookup_path.simps)
  next
    case ml
    then show ?thesis
      unfolding Autoscale_blocks [OF blocks]
      by (simp add: Let_def require_simps index_the_object [OF b1, unfolded append.simps]
          index_the_object [OF b2, unfolded append.simps] index_the_object [OF b3, unfolded append.simps]
          index_the_object [OF b4, unfolded append.simps] del: lookup_path.simps)
  next
    case cr
    then show ?thesis
      unfolding Autoscale_blocks [OF blocks]
      by (simp add: Let_def require_simps index_the_object [OF b1, unfolded append.simps]
          index_the_object [OF b2, unfolded append.simps] index_the_object [OF b3, unfolded append.simps]
          index_the_object [OF b4, unfolded append.simps] del: lookup_path.simps)
  next
    case mr
    then show ?thesis
      unfolding Autoscale_blocks [OF blocks]
      by (simp add: Let_def require_simps index_the_object [OF b1, unfolded append.simps]
          index_the_object [OF b2, unfolded append.simps] index_the_object [OF b3, unfolded append.simps]
          index_the_object [OF b4, unfolded append.simps] del: lookup_path.simps)
  next
    case ecl
    then show ?thesis
      unfolding Autoscale_blocks [OF blocks]
      by (simp add: Let_def require_simps index_the_object [OF b1, unfolded append.simps]
          index_the_object [OF b2, unfolded append.simps] index_the_object [OF b3, unfolded append.simps]
          index_the_object [OF b4, unfolded append.simps] del: lookup_path.simps)
  next
    case eml
    then show ?thesis
      unfolding Autoscale_blocks [OF blocks]
      by (simp add: Let_def require_simps index_the_object [OF b1, unfolded append.simps]
          index_the_object [OF b2, unfolded append.simps] index_the_object [OF b3, unfolded append.simps]
          index_the_object [OF b4, unfolded append.simps] del: lookup_path.simps)
  next
    case ecr
    then show ?thesis
      unfolding Autoscale_blocks [OF blocks]
      by (simp add: Let_def require_simps index_the_object [OF b1, unfolded append.simps]
          index_the_object [OF b2, unfolded append.simps] index_the_object [OF b3, unfolded append.simps]
          index_the_object [OF b4, unfolded append.simps] del: lookup_path.simps)
  next
    case emr
    then show ?thesis
      unfolding Autoscale_blocks [OF blocks]
      by (simp add: Let_def require_simps index_the_object [OF b1, unfolded append.simps]
          index_the_object [OF b2, unfolded append.simps] index_the_object [OF b3, unfolded append.simps]
          index_the_object [OF b4, unfolded append.simps] del: lookup_path.simps)
  qed
qed

lemma autoscale_branch_strings:
  assumes "lookup_path (JObject dat) [''resources'', ''limits'', ''cpu''] = Some (JString cl)"
    and "lookup_path (JObject dat) [''resources'', ''limits'', ''memory''] = Some (JString ml)"
    and "lookup_path (JObject dat) [''resources'', ''requests'', ''cpu''] = Some (JString cr)"
    and "lookup_path (JObject dat) [''resources'', ''requests'', ''memory''] = Some (JString mr)"
    and "lookup_path (JObject dat) [''envoyproxy'', ''resources'', ''limits'', ''cpu''] = Some (JString ecl)"
    and "lookup_path (JObject dat) [''envoyproxy'', ''resources'', ''limits'', ''memory''] = Some (JString eml)"
    and "lookup_path (JObject dat) [''envoyproxy'', ''resources'', ''requests'', ''cpu''] = Some (JString ecr)"
    and "lookup_path (JObject dat) [''envoyproxy'', ''resources'', ''requests'', ''memory''] = Some (JString emr)"
  shows "autoscale_branch dat =
     (if some_limit_below cl ml cr mr ecl eml ecr emr
      then Returns (False, Some (ErrorString ''requests is greater than limits''))
      else Returns (True, None))"
  by (simp add: autoscale_branch_def resources_field_present envoyproxy_field_present
      require_simps compare_limits_strings some_limit_below_def assms del: lookup_path.simps)

lemma Autoscale_strings:
  assumes "lookup_path (JObject dat) [''resources'', ''limits'', ''cpu''] = Some (JString cl)"
    and "lookup_path (JObject dat) [''resources'', ''limits'', ''memory''] = Some (JString ml)"
    and "lookup_path (JObject dat) [''resources'', ''requests'', ''cpu''] = Some (JString cr)"
    and "lookup_path (JObject dat) [''resources'', ''requests'', ''memory''] = Some (JString mr)"
    and "lookup_path (JObject dat) [''envoyproxy'', ''resources'', ''limits'', ''cpu''] = Some (JString ecl)"
    and "lookup_path (JObject dat) [''envoyproxy'', ''resources'', ''limits'', ''memory''] = Some (JString eml)"
    and "lookup_path (JObject dat) [''envoyproxy'', ''resources'', ''requests'', ''cpu''] = Some (JString ecr)"
    and "lookup_path (JObject dat) [''envoyproxy'', ''resources'', ''requests'', ''memory''] = Some (JString emr)"
  shows "Autoscale dat =
     (if some_limit_below cl ml cr mr ecl eml ecr emr
      then Returns (False, Some (ErrorString ''requests is greater than limits''))
      else Returns (True, None))"
proof -
  have b1: "is_object (lookup_path (JObject dat) [''resources'', ''limits''])"
    using present_is_object [of "JObject dat" "[''resources'', ''limits'']" "''cpu''"] assms(1)
    by (simp del: lookup_path.simps)
  have b2: "is_object (lookup_path (JObject dat) [''resources'', ''requests''])"
    using present_is_object [of "JObject dat" "[''resources'', ''requests'']" "''cpu''"] assms(3)
    by (simp del: lookup_path.simps)
  have b3: "is_object (lookup_path (JObject dat) [''envoyproxy'', ''resources'', ''limits''])"
    using present_is_object [of "JObject dat" "[''envoyproxy'', ''resources'', ''limits'']" "''cpu''"]
      assms(5)
    by (simp del: lookup_path.simps)
  have b4: "is_object (lookup_path (JObject dat) [''envoyproxy'', ''resources'', ''requests''])"
    using present_is_object [of "JObject dat" "[''envoyproxy'', ''resources'', ''requests'']" "''cpu''"]
      assms(7)
    by (simp del: lookup_path.simps)
  have blocks: "list_all (\<lambda>b. is_object (lookup_path (JObject dat) b)) resource_blocks"
    using b1 b2 b3 b4 by (simp add: resource_blocks_def del: lookup_path.simps)
  show ?thesis
    unfolding Autoscale_blocks [OF blocks]
    by (simp add: Let_def require_simps index_the_object [OF b1, unfolded append.simps]
        index_the_object [OF b2, unfolded append.simps]
        index_the_object [OF b3, unfolded append.simps]
        index_the_object [OF b4, unfolded append.simps]
        compare_limits_strings some_limit_below_def assms del: lookup_path.simps)
qed

lemma accepting_checked:
  "autoscaling_checked accepting (JObject dat) schemafile dat =
     (lookup_path (JObject dat) [''autoscaling'', ''enabled''] = Some (JBool True))"
  by (simp add: autoscaling_checked_def accepting_def del: lookup_path.simps)

lemma below_100Mi_1Gi: "below MemoryToNumber ''100Mi'' ''1Gi''"
  by (simp add: below_def memory_examples number_of_def f64_of_nat_104857600
      f64_of_nat_1073741824 sval_def)

text \<open>
  C5. When the schema file exists and a collaborator fails, the validator returns
  at once with \<open>false\<close> and the error of the collaborator as it is: the error of
  \<open>json.Marshal\<close> for a template that cannot be written, and otherwise the error of
  \<open>gojsonschema.Validate\<close>. The schema that \<open>Validate\<close> receives is the nil map when
  the file could not be opened, read or decoded, so these failures reach the
  caller as the error that the engine reports for them.
\<close>

theorem C5_engine_errors_are_returned:
  assumes "Stat io (schema_path schemafile) = None"
  shows "(Marshal io templatejson = Inl err \<longrightarrow>
            DeploymentTemplateValidate io templatejson schemafile = Returns (False, Some err)) \<and>
         (Marshal io templatejson = Inr data \<and>
          Validate io (schemajson io (schema_path schemafile)) templatejson = Inl err \<longrightarrow>
            DeploymentTemplateValidate io templatejson schemafile = Returns (False, Some err))"
  using assms by (simp add: DeploymentTemplateValidate_def)

theorem C5_witness:
  "Stat engine_fails (schema_path ''deployment'') = None \<and>
   Marshal engine_fails JNull = Inr JNull \<and>
   Validate engine_fails (schemajson engine_fails (schema_path ''deployment'')) JNull =
     Inl (External ''EOF'') \<and>
   DeploymentTemplateValidate engine_fails JNull ''deployment'' =
     Returns (False, Some (External ''EOF'')) \<and>
   Stat marshal_fails (schema_path ''deployment'') = None \<and>
   Marshal marshal_fails JNull = Inl (External ''json: unsupported value'') \<and>
   DeploymentTemplateValidate marshal_fails JNull ''deployment'' =
     Returns (False, Some (External ''json: unsupported value''))"
proof -
  have s: "Stat engine_fails (schema_path ''deployment'') = None"
    "Stat marshal_fails (schema_path ''deployment'') = None"
    by (simp_all add: engine_fails_def marshal_fails_def accepting_def)
  have m: "Marshal engine_fails JNull = Inr JNull"
    "Marshal marshal_fails JNull = Inl (External ''json: unsupported value'')"
    by (simp_all add: engine_fails_def marshal_fails_def accepting_def)
  have v: "Validate engine_fails (schemajson engine_fails (schema_path ''deployment'')) JNull =
     Inl (External ''EOF'')"
    by (simp add: engine_fails_def accepting_def)
  from C5_engine_errors_are_returned [OF s(1), of JNull "External ''EOF''" JNull]
    C5_engine_errors_are_returned [OF s(2), of JNull "External ''json: unsupported value''" JNull]
    s m v
  show ?thesis by simp
qed

text \<open>
  C7. When the eight fields are strings, in a call that reaches the autoscaling
  branch and in \<open>Autoscale\<close>, the result depends on the four comparisons only: if
  some limit is strictly below its request, the call fails with the one message
  \<open>requests is greater than limits\<close>, whichever comparison it was, and otherwise it
  returns \<open>true\<close>. A limit equal to its request is never below it.
\<close>

theorem C7_limit_below_request:
  assumes "lookup_path (JObject dat) [''resources'', ''limits'', ''cpu''] = Some (JString cl)"
    and "lookup_path (JObject dat) [''resources'', ''limits'', ''memory''] = Some (JString ml)"
    and "lookup_path (JObject dat) [''resources'', ''requests'', ''cpu''] = Some (JString cr)"
    and "lookup_path (JObject dat) [''resources'', ''requests'', ''memory''] = Some (JString mr)"
    and "lookup_path (JObject dat) [''envoyproxy'', ''resources'', ''limits'', ''cpu''] = Some (JString ecl)"
    and "lookup_path (JObject dat) [''envoyproxy'', ''resources'', ''limits'', ''memory''] = Some (JString eml)"
    and "lookup_path (JObject dat) [''envoyproxy'', ''resources'', ''requests'', ''cpu''] = Some (JString ecr)"
    and "lookup_path (JObject dat) [''envoyproxy'', ''resources'', ''requests'', ''memory''] = Some (JString emr)"
  shows "(autoscaling_checked io templatejson schemafile dat \<longrightarrow>
           DeploymentTemplateValidate io templatejson schemafile =
             (if some_limit_below cl ml cr mr ecl eml ecr emr
              then Returns (False, Some (ErrorString ''requests is greater than limits''))
              else Returns (True, None))) \<and>
         Autoscale dat =
           (if some_limit_below cl ml cr mr ecl eml ecr emr
            then Returns (False, Some (ErrorString ''requests is greater than limits''))
            else Returns (True, None)) \<and>
         \<not> some_limit_below cl ml cl ml ecl eml ecl eml"
  using autoscale_branch_strings [OF assms] Autoscale_strings [OF assms]
  by (simp add: DeploymentTemplateValidate_autoscaling some_limit_below_def below_irrefl)

theorem C7_witness:
  "DeploymentTemplateValidate accepting (JObject document_1) ''deployment'' =
     Returns (False, Some (ErrorString ''requests is greater than limits'')) \<and>
   Autoscale document_1 =
     Returns (False, Some (ErrorString ''requests is greater than limits'')) \<and>
   \<not> some_limit_below ''50m'' ''1Gi'' ''50m'' ''1Gi'' ''1000'' ''100Mi'' ''1000'' ''100Mi''"
proof -
  have c: "autoscaling_checked accepting (JObject document_1) ''deployment'' document_1"
    by (simp add: accepting_checked) (simp add: document_1_def)
  have s: "some_limit_below ''50m'' ''1Gi'' ''50m'' ''100Mi'' ''1000'' ''100Mi'' ''50'' ''1Gi''"
    by (simp add: some_limit_below_def below_100Mi_1Gi)
  have "(autoscaling_checked accepting (JObject document_1) ''deployment'' document_1 \<longrightarrow>
           DeploymentTemplateValidate accepting (JObject document_1) ''deployment'' =
             (if some_limit_below ''50m'' ''1Gi'' ''50m'' ''100Mi'' ''1000'' ''100Mi'' ''50'' ''1Gi''
              then Returns (False, Some (ErrorString ''requests is greater than limits''))
              else Returns (True, None))) \<and>
         Autoscale document_1 =
           (if some_limit_below ''50m'' ''1Gi'' ''50m'' ''100Mi'' ''1000'' ''100Mi'' ''50'' ''1Gi''
            then Returns (False, Some (ErrorString ''requests is greater than limits''))
            else Returns (True, None)) \<and>
         \<not> some_limit_below ''50m'' ''1Gi'' ''50m'' ''1Gi'' ''1000'' ''100Mi'' ''1000'' ''100Mi''"
    by (rule C7_limit_below_request) (simp_all add: document_1_def)
  with c s show ?thesis by simp
qed

text \<open>
  C6. As the specification states it, the first of the eight fields that is absent is
  reported with its own message. \<open>Autoscale\<close> first checks the four blocks, so a
  document whose \<open>limits\<close> block is empty and whose \<open>requests\<close> block is absent is
  answered with \<open>Request is required\<close>, although the first absent field is the CPU
  limit; and \<open>DeploymentTemplateValidate\<close> panics when the block of the field is
  absent.
\<close>

theorem C6_counterexample:
  "first_absent document_3 = Some ([''resources'', ''limits'', ''cpu''], ''CPU limit is required'') \<and>
   Autoscale document_3 = Returns (False, Some (ErrorString ''Request is required'')) \<and>
   first_absent document_4 = Some ([''resources'', ''limits'', ''cpu''], ''CPU limit is required'') \<and>
   autoscaling_checked accepting (JObject document_4) ''deployment'' document_4 \<and>
   DeploymentTemplateValidate accepting (JObject document_4) ''deployment'' = Panics"
proof -
  have a: "first_absent document_3 =
      Some ([''resources'', ''limits'', ''cpu''], ''CPU limit is required'')"
    by (simp add: first_absent_def required_fields_def document_3_def)
  have b: "Autoscale document_3 = Returns (False, Some (ErrorString ''Request is required''))"
    by (simp add: Autoscale_def document_3_def index_def assert_index_def assert_map_def
        require_map_def)
  have c: "first_absent document_4 =
      Some ([''resources'', ''limits'', ''cpu''], ''CPU limit is required'')"
    by (simp add: first_absent_def required_fields_def document_4_def)
  have d: "autoscaling_checked accepting (JObject document_4) ''deployment'' document_4"
    by (simp add: accepting_checked) (simp add: document_4_def)
  have "autoscale_branch document_4 = Panics"
    by (simp add: autoscale_branch_def document_4_def resources_field_def index_def
        assert_index_def assert_map_def require_def)
  with DeploymentTemplateValidate_autoscaling [OF d]
  have e: "DeploymentTemplateValidate accepting (JObject document_4) ''deployment'' = Panics"
    by simp
  from a b c d e show ?thesis by simp
qed

text \<open>
  C6, amended. In a document where the eight fields are not all present, the
  first absent field, in the order primary CPU limit, memory limit, CPU request,
  memory request, then the same four of the sidecar, is reported with its own
  message and no later field is looked at: by \<open>DeploymentTemplateValidate\<close> in a call
  that reaches the autoscaling branch, when the block that should hold the field
  is an object, and by \<open>Autoscale\<close> when the four blocks are objects.
\<close>

theorem C6_first_absent_field_is_reported:
  assumes "first_absent dat = Some (path, msg)"
  shows "(autoscaling_checked io templatejson schemafile dat \<and>
          is_object (lookup_path (JObject dat) (butlast path)) \<longrightarrow>
            DeploymentTemplateValidate io templatejson schemafile =
              Returns (False, Some (ErrorString msg))) \<and>
         (list_all (\<lambda>b. is_object (lookup_path (JObject dat) b)) resource_blocks \<longrightarrow>
            Autoscale dat = Returns (False, Some (ErrorString msg)))"
  using autoscale_branch_first_absent [OF assms] Autoscale_first_absent [OF assms]
  by (auto simp: DeploymentTemplateValidate_autoscaling simp del: lookup_path.simps)

theorem C6_witness:
  "first_absent document_2 = Some ([''resources'', ''limits'', ''memory''], ''Memory limit is required'') \<and>
   autoscaling_checked accepting (JObject document_2) ''deployment'' document_2 \<and>
   is_object (lookup_path (JObject document_2) [''resources'', ''limits'']) \<and>
   list_all (\<lambda>b. is_object (lookup_path (JObject document_2) b)) resource_blocks \<and>
   DeploymentTemplateValidate accepting (JObject document_2) ''deployment'' =
     Returns (False, Some (ErrorString ''Memory limit is required'')) \<and>
   Autoscale document_2 = Returns (False, Some (ErrorString ''Memory limit is required''))"
proof -
  have f: "first_absent document_2 =
      Some ([''resources'', ''limits'', ''memory''], ''Memory limit is required'')"
    by (simp add: first_absent_def required_fields_def document_2_def)
  have c: "autoscaling_checked accepting (JObject document_2) ''deployment'' document_2"
    by (simp add: accepting_checked) (simp add: document_2_def)
  have o: "is_object (lookup_path (JObject document_2) [''resources'', ''limits''])"
    by (simp add: document_2_def is_object_def)
  have b: "list_all (\<lambda>b. is_object (lookup_path (JObject document_2) b)) resource_blocks"
    by (simp add: document_2_def is_object_def resource_blocks_def)
  from C6_first_absent_field_is_reported [OF f, of accepting "JObject document_2" "''deployment''"]
    c o b f
  show ?thesis by simp
qed

text \<open>
  C2. The specification lets every document without the flag \<open>autoscaling.enabled\<close>,
  or with the flag \<open>false\<close>, pass without the check of the resource fields. The
  validator returns \<open>true\<close> when \<open>autoscaling\<close> is an object without the key \<open>enabled\<close>
  or with \<open>enabled\<close> false, but it panics on a document without \<open>autoscaling\<close>, or
  with an \<open>autoscaling\<close> that is not an object: the type assertion on
  \<open>dat["autoscaling"]\<close> has one result.
\<close>

theorem C2_absent_autoscaling_panics:
  "DeploymentTemplateValidate accepting (JObject []) ''deployment'' = Panics \<and>
   DeploymentTemplateValidate accepting (JObject [(''autoscaling'', JNull)]) ''deployment'' = Panics \<and>
   DeploymentTemplateValidate accepting (JObject [(''autoscaling'', JObject [])]) ''deployment'' =
     Returns (True, None) \<and>
   DeploymentTemplateValidate accepting
     (JObject [(''autoscaling'', JObject [(''enabled'', JBool False)])]) ''deployment'' =
     Returns (True, None)"
  by (simp add: DeploymentTemplateValidate_def accepting_def Unmarshal_map_def index_def
      assert_index_def assert_map_def)


end
